theory Spec2Isabelle
  imports Main
begin

section \<open>gfile: chunked transfer against a file-hosting service\<close>

text \<open>
  A shallow embedding of \<^verbatim>\<open>src/gfile/gfile.py\<close>. Python integers are unbounded and are
  modelled by \<open>nat\<close> and \<open>int\<close>. Python strings are modelled by \<open>string\<close>, read as
  texts over the code points 0 to 255 (no decimal digit and no case variant of an ASCII
  letter lies between 128 and 255, so the regular expressions of the source behave on
  this range as on ASCII). Every exception the source can raise is a value of
  \<open>py_error\<close>; a function that can raise returns \<open>py_error + 'a\<close>.
\<close>

subsection \<open>Exceptions\<close>

datatype py_error =
    AssertionError
  | ValueError
  | IndexError
  | OverflowError
  | ZeroDivisionError
  | TypeError
  | UnboundLocalError string
  | SizeException nat
  | HTTPError
  | RequestException
  | JSONDecodeError
  | KeyError string
  | KeyboardInterrupt
  | FileNotFoundError
  | OSError

subsection \<open>Binary64 arithmetic on integers\<close>

text \<open>
  The source mixes integers and floats in three places: \<^verbatim>\<open>size / self.chunk_size\<close>,
  \<^verbatim>\<open>math.pow(1024, i) * int(num)\<close> and \<^verbatim>\<open>bytes / p\<close>. CPython converts an integer to
  a float, and divides two integers, with correct rounding: the result is the binary64
  value nearest to the exact one, ties going to the even mantissa. Only non-negative
  operands occur. A finite non-negative float is written here as a pair \<open>(m, k)\<close>
  standing for \<open>m * 2 ^ k\<close>.
\<close>

text \<open>\<^verbatim>\<open>int.bit_length()\<close>.\<close>

fun bit_length :: "nat \<Rightarrow> nat" where
  "bit_length n = (if n = 0 then 0 else Suc (bit_length (n div 2)))"

declare bit_length.simps [simp del]

text \<open>The quotient \<open>num / den\<close> rounded to the nearest integer, ties to even.\<close>

definition rne_div :: "nat \<Rightarrow> nat \<Rightarrow> nat" where
  "rne_div num den =
     (let q = num div den; r = num mod den
      in if 2 * r < den then q
         else if den < 2 * r then q + 1
         else if even q then q else q + 1)"

text \<open>
  \<^verbatim>\<open>float(n)\<close> for \<open>n \<ge> 0\<close>, as the integer it denotes: \<open>n\<close> rounded to 53 significant
  bits. CPython raises OverflowError when the rounded value reaches \<open>2 ^ 1024\<close>; the
  callers below test for that.
\<close>

definition int_to_float :: "nat \<Rightarrow> nat" where
  "int_to_float n = (let e = bit_length n - 53 in rne_div n (2 ^ e) * 2 ^ e)"

text \<open>\<open>\<lfloor>log\<^sub>2 (a / b)\<rfloor>\<close> for positive \<open>a\<close> and \<open>b\<close>.\<close>

definition floor_log2_quot :: "nat \<Rightarrow> nat \<Rightarrow> int" where
  "floor_log2_quot a b =
     (let d = int (bit_length a) - int (bit_length b)
      in if b * 2 ^ nat d \<le> a * 2 ^ nat (- d) then d else d - 1)"

text \<open>
  \<^verbatim>\<open>a / b\<close> on two non-negative integers (CPython's \<^verbatim>\<open>long_true_divide\<close>): the exact
  quotient rounded to binary64. The last mantissa bit has weight \<open>2 ^ k\<close>, with
  \<open>k = e - 52\<close> for a normal result of binary exponent \<open>e\<close> and \<open>k = - 1074\<close> for a
  subnormal one.
\<close>

definition int_true_div :: "nat \<Rightarrow> nat \<Rightarrow> py_error + nat \<times> int" where
  "int_true_div a b =
     (if b = 0 then Inl ZeroDivisionError
      else if a = 0 then Inr (0, 0)
      else
        let e = floor_log2_quot a b;
            k = max e (- 1022) - 52;
            m = rne_div (a * 2 ^ nat (- k)) (b * 2 ^ nat k)
        in if 2 ^ 1024 \<le> m * 2 ^ nat k then Inl OverflowError else Inr (m, k))"

text \<open>\<^verbatim>\<open>math.ceil\<close> of the float \<open>m * 2 ^ k\<close>.\<close>

definition math_ceil :: "nat \<times> int \<Rightarrow> nat" where
  "math_ceil f =
     (case f of (m, k) \<Rightarrow> (m * 2 ^ nat k + (2 ^ nat (- k) - 1)) div 2 ^ nat (- k))"

subsection \<open>The size codec\<close>

text \<open>The decimal digits of a natural number, as \<^verbatim>\<open>str\<close> prints them.\<close>

fun str_nat :: "nat \<Rightarrow> string" where
  "str_nat n =
     (if n < 10 then [''0123456789'' ! n]
      else str_nat (n div 10) @ [''0123456789'' ! (n mod 10)])"

declare str_nat.simps [simp del]

text \<open>
  \<^verbatim>\<open>f"{x:.02f}"\<close> for the float \<open>x = f / p\<close> (\<open>p\<close> a power of two, so the division is exact):
  the exact value rounded to hundredths, ties to even, printed with two decimals.
\<close>

definition fmt_02f :: "nat \<Rightarrow> nat \<Rightarrow> string" where
  "fmt_02f f p =
     (let h = rne_div (100 * f) p
      in str_nat (h div 100) @ ''.'' @
         [''0123456789'' ! (h mod 100 div 10), ''0123456789'' ! (h mod 10)])"

definition units_fmt :: "string list" where
  "units_fmt = [''B'', ''KB'', ''MB'', ''GB'', ''TB'', ''PB'', ''EB'', ''ZB'', ''YB'']"

text \<open>The exact value of \<open>\<lfloor>log\<^bsub>1024\<^esub> n\<rfloor>\<close> for \<open>n > 0\<close>.\<close>

definition log1024_floor :: "int \<Rightarrow> nat" where
  "log1024_floor n = (bit_length (nat n) - 1) div 10"

text \<open>
  \<^verbatim>\<open>bytes_to_size_str\<close>. The argument \<open>lg\<close> stands for
  \<^verbatim>\<open>int(math.floor(math.log(bytes, 1024)))\<close>: the C library computes the logarithm in
  binary64 and its last bit is not fixed by any standard, so the function is a parameter;
  \<open>log1024_floor\<close> is its exact value. For \<open>bytes \<ge> 1\<close> the logarithm is not negative.
  \<^verbatim>\<open>math.log\<close> raises ValueError on a negative argument, \<^verbatim>\<open>math.pow\<close> raises
  OverflowError when \<open>1024 ^ i\<close> is no float, \<^verbatim>\<open>bytes / p\<close> raises it when \<open>bytes\<close> is
  none, and \<^verbatim>\<open>units[i]\<close> raises IndexError past the ninth unit.
\<close>

definition bytes_to_size_str :: "(int \<Rightarrow> nat) \<Rightarrow> int \<Rightarrow> py_error + string" where
  "bytes_to_size_str lg bytes =
     (if bytes = 0 then Inr ''0B''
      else if bytes < 0 then Inl ValueError
      else
        let i = lg bytes; p = (1024 :: nat) ^ i
        in if 2 ^ 1024 \<le> p then Inl OverflowError
           else if 2 ^ 1024 \<le> int_to_float (nat bytes) then Inl OverflowError
           else if length units_fmt \<le> i then Inl IndexError
           else Inr (fmt_02f (int_to_float (nat bytes)) p @ '' '' @ units_fmt ! i))"

text \<open>The argument of \<^verbatim>\<open>size_str_to_bytes\<close>: an integer or a string.\<close>

datatype size_arg = PyInt int | PyStr string

definition is_digit :: "char \<Rightarrow> bool" where
  "is_digit c = (c \<in> set ''0123456789'')"

definition upper_char :: "char \<Rightarrow> char" where
  "upper_char c =
     (case map_of (zip ''abcdefghijklmnopqrstuvwxyz'' ''ABCDEFGHIJKLMNOPQRSTUVWXYZ'') c of
        Some u \<Rightarrow> u
      | None \<Rightarrow> c)"

text \<open>
  \<^verbatim>\<open>re.search(r'^(?P<num>\d+) ?((?P<unit>[KMGTPEZY]?)(iB|B)?)$', size_str, re.IGNORECASE)\<close>:
  the groups \<open>num\<close> and \<open>unit\<close> of the match, or \<open>None\<close>. The pattern is deterministic: the
  digits, the blank, the unit letters and the letters of the suffix are pairwise
  disjoint, so each optional part is taken exactly when it is present. \<^verbatim>\<open>$\<close> matches at
  the end of the string and before a newline that ends it. \<open>opt_blank\<close> is \<^verbatim>\<open>' ?'\<close>
  (what follows the blank), \<open>unit_group\<close> is what \<^verbatim>\<open>[KMGTPEZY]?\<close> matches, and
  \<open>opt_suffix\<close> is what follows \<^verbatim>\<open>(iB|B)?\<close>.
\<close>

definition opt_blank :: "string \<Rightarrow> string" where
  "opt_blank r = (case r of c # t \<Rightarrow> if c = CHR '' '' then t else r | [] \<Rightarrow> r)"

definition unit_group :: "string \<Rightarrow> string" where
  "unit_group r =
     (case r of c # t \<Rightarrow> if upper_char c \<in> set ''KMGTPEZY'' then [c] else [] | [] \<Rightarrow> [])"

definition opt_suffix :: "string \<Rightarrow> string" where
  "opt_suffix r =
     (case r of
        c # d # t \<Rightarrow>
          if upper_char c = CHR ''I'' \<and> upper_char d = CHR ''B'' then t
          else if upper_char c = CHR ''B'' then d # t
          else r
      | [c] \<Rightarrow> if upper_char c = CHR ''B'' then [] else r
      | [] \<Rightarrow> [])"

definition size_re :: "string \<Rightarrow> (string \<times> string) option" where
  "size_re s =
     (let num = takeWhile is_digit s;
          r2 = opt_blank (dropWhile is_digit s);
          unit = unit_group r2;
          r4 = opt_suffix (drop (length unit) r2)
      in if num \<noteq> [] \<and> (r4 = [] \<or> r4 = [CHR 0x0A]) then Some (num, unit) else None)"

text \<open>\<^verbatim>\<open>int(s)\<close> on a string of decimal digits.\<close>

definition digit_val :: "char \<Rightarrow> nat" where
  "digit_val c = of_char c - 48"

definition int_of_digits :: "string \<Rightarrow> nat" where
  "int_of_digits s = foldl (\<lambda>a c. 10 * a + digit_val c) 0 s"

definition units_parse :: "string list" where
  "units_parse = [''B'', ''K'', ''M'', ''G'', ''T'', ''P'', ''E'', ''Z'', ''Y'']"

text \<open>\<^verbatim>\<open>tuple.index\<close>: the first position of \<open>x\<close>, ValueError when there is none.\<close>

fun index_of :: "'a \<Rightarrow> 'a list \<Rightarrow> py_error + nat" where
  "index_of x [] = Inl ValueError"
| "index_of x (y # ys) =
     (if x = y then Inr 0
      else case index_of x ys of Inl e \<Rightarrow> Inl e | Inr i \<Rightarrow> Inr (Suc i))"

text \<open>
  \<^verbatim>\<open>size_str_to_bytes\<close>. \<^verbatim>\<open>math.pow(1024, i)\<close> is the float \<open>2 ^ (10 * i)\<close> for the nine
  indices of the table; the product with \<^verbatim>\<open>int(m['num'])\<close> converts the integer to a
  float first (OverflowError when it is none) and then scales it by a power of two,
  which is exact; \<^verbatim>\<open>int()\<close> of an infinite product raises OverflowError.
\<close>

definition size_str_to_bytes :: "size_arg \<Rightarrow> py_error + int" where
  "size_str_to_bytes size_str =
     (case size_str of
        PyInt n \<Rightarrow> Inr n
      | PyStr s \<Rightarrow>
          (case size_re s of
             None \<Rightarrow> Inl AssertionError
           | Some (num, unit) \<Rightarrow>
               (case index_of (map upper_char (if unit = [] then ''B'' else unit)) units_parse of
                  Inl e \<Rightarrow> Inl e
                | Inr i \<Rightarrow>
                    let f = int_to_float (int_of_digits num)
                    in if 2 ^ 1024 \<le> f then Inl OverflowError
                       else if 2 ^ 1024 \<le> 1024 ^ i * f then Inl OverflowError
                       else Inr (int (1024 ^ i * f)))))"

text \<open>
  The strings the claims call well-formed, after the digits and an optional blank: a
  unit letter in either case (or none) with its index in \<open>units_parse\<close>, and a suffix
  \<^verbatim>\<open>iB\<close> or \<^verbatim>\<open>B\<close> in any case (or none).
\<close>

definition unit_table :: "(string \<times> nat) list" where
  "unit_table =
     [('''', 0),
      (''K'', 1), (''M'', 2), (''G'', 3), (''T'', 4), (''P'', 5), (''E'', 6), (''Z'', 7), (''Y'', 8),
      (''k'', 1), (''m'', 2), (''g'', 3), (''t'', 4), (''p'', 5), (''e'', 6), (''z'', 7), (''y'', 8)]"

definition suffixes :: "string list" where
  "suffixes = ['''', ''B'', ''b'', ''iB'', ''ib'', ''IB'', ''Ib'']"


subsection \<open>Copying a byte range: \<^verbatim>\<open>split_file\<close>\<close>

text \<open>
  A file is its content, a list of bytes. \<^verbatim>\<open>f.read(n)\<close> on a regular file opened in
  binary mode returns the next \<open>n\<close> bytes, fewer only at the end of the file. The writer
  \<^verbatim>\<open>out\<close> is the list of the blocks written so far, one per call of \<^verbatim>\<open>out.write\<close>.
\<close>

type_synonym bytes = "char list"

definition file_read :: "bytes \<Rightarrow> nat \<Rightarrow> nat \<Rightarrow> bytes" where
  "file_read content pos n = take n (drop pos content)"

text \<open>
  The \<^verbatim>\<open>while True\<close> loop of \<^verbatim>\<open>split_file\<close>: \<open>pos\<close> is the position of the file object,
  \<open>sz\<close> the running total (\<^verbatim>\<open>size\<close> in the source). \<^verbatim>\<open>chunk_copy_size\<close> is a natural
  number here; with 0 the first read is empty and the loop ends.
\<close>

function split_loop ::
  "bytes \<Rightarrow> int \<Rightarrow> nat \<Rightarrow> nat \<Rightarrow> nat \<Rightarrow> bytes list \<Rightarrow> py_error + bytes list" where
  "split_loop content output_size chunk_copy_size pos sz out =
     (if int sz = output_size then Inr out
      else if output_size < int sz then Inl (SizeException sz)
      else if file_read content pos (nat (min (int chunk_copy_size) (output_size - int sz))) = []
        then Inr out
      else split_loop content output_size chunk_copy_size
             (pos + length (file_read content pos
                (nat (min (int chunk_copy_size) (output_size - int sz)))))
             (sz + length (file_read content pos
                (nat (min (int chunk_copy_size) (output_size - int sz)))))
             (out @ [file_read content pos
                (nat (min (int chunk_copy_size) (output_size - int sz)))]))"
  by pat_completeness auto
termination
proof (relation "measure (\<lambda>(content, output_size, chunk_copy_size, pos, sz, out).
    nat (output_size - int sz))", goal_cases)
  case 1
  show ?case by simp
next
  case (2 content output_size chunk_copy_size pos sz out)
  then have "0 < length (file_read content pos
      (nat (min (int chunk_copy_size) (output_size - int sz))))"
    by simp
  with 2 show ?case by simp
qed

declare split_loop.simps [simp del]

text \<open>
  \<^verbatim>\<open>split_file\<close>. \<open>st_size\<close> is what \<^verbatim>\<open>input_file.stat().st_size\<close> returned and
  \<open>input_file\<close> the content the later \<^verbatim>\<open>open\<close> reads: the source asks the file system
  twice, and the loop has a branch for a file that ends early.
\<close>

definition split_file ::
  "nat \<Rightarrow> bytes \<Rightarrow> bytes list \<Rightarrow> int option \<Rightarrow> nat \<Rightarrow> nat \<Rightarrow> py_error + bytes list" where
  "split_file st_size input_file out target_size start chunk_copy_size =
     (let input_size = int st_size;
          output_size =
            (case target_size of
               None \<Rightarrow> input_size - int start
             | Some t \<Rightarrow> min t (input_size - int start))
      in split_loop input_file output_size chunk_copy_size start 0 out)"

subsection \<open>Upload: chunk count and chunk payloads\<close>

text \<open>\<^verbatim>\<open>chunks = math.ceil(size / self.chunk_size)\<close>.\<close>

definition upload_chunks :: "nat \<Rightarrow> nat \<Rightarrow> py_error + nat" where
  "upload_chunks file_size chunk_size =
     (case int_true_div file_size chunk_size of
        Inl e \<Rightarrow> Inl e
      | Inr f \<Rightarrow> Inr (math_ceil f))"

text \<open>
  The bytes \<^verbatim>\<open>upload_chunk\<close> reads for chunk \<open>chunk_no\<close>: what \<^verbatim>\<open>split_file\<close> writes
  into the fresh \<^verbatim>\<open>io.BytesIO\<close>.
\<close>

definition chunk_payload :: "bytes \<Rightarrow> nat \<Rightarrow> nat \<Rightarrow> nat \<Rightarrow> py_error + bytes" where
  "chunk_payload input_file chunk_size chunk_copy_size chunk_no =
     (case split_file (length input_file) input_file [] (Some (int chunk_size))
             (chunk_no * chunk_size) chunk_copy_size of
        Inl e \<Rightarrow> Inl e
      | Inr blocks \<Rightarrow> Inr (concat blocks))"

text \<open>
  The chunk numbers \<^verbatim>\<open>upload\<close> hands to \<^verbatim>\<open>upload_chunk\<close>: 0 first, then
  \<^verbatim>\<open>range(1, chunks)\<close>.
\<close>

definition uploaded_chunk_nos :: "nat \<Rightarrow> nat list" where
  "uploaded_chunk_nos chunks = 0 # [1..<chunks]"

subsection \<open>Upload: the session and its workers\<close>

text \<open>
  The reply \<^verbatim>\<open>resp.json()\<close> of the upload endpoint is a JSON object, a map from keys to
  JSON values (a number is an integer here). \<open>truthy\<close> is Python's truth value.
\<close>

datatype jval =
    JNull
  | JBool bool
  | JNum int
  | JStr string
  | JArr "jval list"
  | JObj "(string \<times> jval) list"

fun truthy :: "jval \<Rightarrow> bool" where
  "truthy JNull = False"
| "truthy (JBool b) = b"
| "truthy (JNum n) = (n \<noteq> 0)"
| "truthy (JStr s) = (s \<noteq> [])"
| "truthy (JArr xs) = (xs \<noteq> [])"
| "truthy (JObj kvs) = (kvs \<noteq> [])"

type_synonym resp_data = "string \<rightharpoonup> jval"

text \<open>
  The fields of a \<^verbatim>\<open>GFile\<close> that the workers share: the cursor, the last reply that
  held a URL, and the failure flag. \<^verbatim>\<open>__init__\<close> sets the first two, \<^verbatim>\<open>upload\<close> the
  flag.
\<close>

record gfile =
  current_chunk :: nat
  data :: "resp_data option"
  failed :: bool

definition gfile_init :: gfile where
  "gfile_init = \<lparr>current_chunk = 0, data = None, failed = False\<rparr>"

text \<open>
  What one upload is given: the chunk count computed by \<^verbatim>\<open>upload\<close>, the length of the
  multipart body of each chunk (\<^verbatim>\<open>len(form_data_binary)\<close>) and the reply to each chunk.
\<close>

record upload_env =
  chunks :: nat
  body_size :: "nat \<Rightarrow> nat"
  response :: "nat \<Rightarrow> resp_data"

text \<open>
  Where the call \<^verbatim>\<open>upload_chunk(i, chunks)\<close> stands. A future of the pool is \<open>Pending\<close>
  until a worker thread takes it, or \<open>Cancelled\<close>; chunk numbers never submitted are
  \<open>Absent\<close>. \<open>Gen offset\<close>: \<^verbatim>\<open>session.post\<close> is reading the body from \<^verbatim>\<open>gen()\<close>, whose
  local \<^verbatim>\<open>offset\<close> has this value. \<open>Posted\<close>: the generator has ended and the request
  awaits its reply. \<open>Incr v\<close>: \<^verbatim>\<open>self.current_chunk += 1\<close> has read the value \<open>v\<close> and not
  yet stored \<open>v + 1\<close> (the statement is a load and a store, and threads may switch
  between them). \<open>Tail\<close>: the cursor is stored, the two \<^verbatim>\<open>if\<close> statements remain.
  \<open>Crashed\<close>: \<^verbatim>\<open>resp.json()\<close> raised and the call ended with that exception.
\<close>

datatype phase =
    Absent
  | Pending
  | Cancelled
  | Gen nat
  | Posted
  | Incr nat
  | Tail
  | Finished
  | Crashed

text \<open>
  Where the call \<^verbatim>\<open>upload()\<close> stands: in the synchronous first chunk, in the
  \<^verbatim>\<open>as_completed\<close> loop after \<open>k\<close> futures were yielded, leaving the \<^verbatim>\<open>with\<close> block after
  a \<^verbatim>\<open>return\<close> (the executor's shutdown waits for the running workers), or finished.
\<close>

datatype main_state =
    Chunk0
  | Looping nat
  | Shutdown
  | Returned_None
  | Returned_self
  | Raised py_error

record pool =
  gf :: gfile
  ph :: "nat \<Rightarrow> phase"
  main :: main_state

definition update_tick :: nat where
  "update_tick = 1024 * 128"

text \<open>The end of \<^verbatim>\<open>upload_chunk\<close>, after the cursor is advanced.\<close>

definition bad_status :: "resp_data \<Rightarrow> bool" where
  "bad_status resp_data =
     (case resp_data ''status'' of None \<Rightarrow> True | Some v \<Rightarrow> truthy v)"

definition finish_chunk :: "resp_data \<Rightarrow> gfile \<Rightarrow> gfile" where
  "finish_chunk resp_data g =
     (let g1 = (if resp_data ''url'' \<noteq> None then g\<lparr>data := Some resp_data\<rparr> else g)
      in if bad_status resp_data then g1\<lparr>failed := True\<rparr> else g1)"

text \<open>
  One step of the thread that runs \<^verbatim>\<open>upload_chunk(i, chunks)\<close>. The transport reads the
  request body until the producer ends, so the reply is read only after \<^verbatim>\<open>gen()\<close> has
  left its loop.
\<close>

definition work :: "upload_env \<Rightarrow> nat \<Rightarrow> pool \<Rightarrow> pool" where
  "work E i s =
     (case ph s i of
        Absent \<Rightarrow> s
      | Cancelled \<Rightarrow> s
      | Finished \<Rightarrow> s
      | Crashed \<Rightarrow> s
      | Pending \<Rightarrow> s\<lparr>ph := (ph s)(i := Gen 0)\<rparr>
      | Gen offset \<Rightarrow>
          if offset < body_size E i then s\<lparr>ph := (ph s)(i := Gen (offset + update_tick))\<rparr>
          else if i \<noteq> current_chunk (gf s) then s
          else s\<lparr>ph := (ph s)(i := Posted)\<rparr>
      | Posted \<Rightarrow> s\<lparr>ph := (ph s)(i := Incr (current_chunk (gf s)))\<rparr>
      | Incr v \<Rightarrow> s\<lparr>gf := (gf s)\<lparr>current_chunk := v + 1\<rparr>, ph := (ph s)(i := Tail)\<rparr>
      | Tail \<Rightarrow> s\<lparr>gf := finish_chunk (response E i) (gf s), ph := (ph s)(i := Finished)\<rparr>)"

text \<open>
  \<^verbatim>\<open>session.post\<close> raises in the thread of chunk \<open>i\<close>: the \<^verbatim>\<open>while True\<close> loop prints the
  exception and posts again with a fresh generator.
\<close>

definition post_error :: "nat \<Rightarrow> pool \<Rightarrow> pool" where
  "post_error i s =
     (case ph s i of
        Gen offset \<Rightarrow> s\<lparr>ph := (ph s)(i := Gen 0)\<rparr>
      | Posted \<Rightarrow> s\<lparr>ph := (ph s)(i := Gen 0)\<rparr>
      | _ \<Rightarrow> s)"

text \<open>
  The body of the reply to chunk \<open>i\<close> is no JSON: \<^verbatim>\<open>resp.json()\<close> raises. In a worker
  thread the exception ends the call and is kept in the future, which nothing reads;
  in the first chunk it leaves \<^verbatim>\<open>upload()\<close>.
\<close>

definition json_error :: "nat \<Rightarrow> pool \<Rightarrow> pool" where
  "json_error i s =
     (case ph s i of
        Posted \<Rightarrow>
          s\<lparr>ph := (ph s)(i := Crashed),
            main := (if i = 0 then Raised JSONDecodeError else main s)\<rparr>
      | _ \<Rightarrow> s)"

text \<open>\<^verbatim>\<open>future.cancel()\<close> on every future: only one that has not started is cancelled.\<close>

definition cancel_all :: "(nat \<Rightarrow> phase) \<Rightarrow> (nat \<Rightarrow> phase)" where
  "cancel_all p = (\<lambda>i. if p i = Pending then Cancelled else p i)"

definition completed :: "upload_env \<Rightarrow> pool \<Rightarrow> nat" where
  "completed E s =
     length (filter (\<lambda>i. ph s i = Finished \<or> ph s i = Cancelled \<or> ph s i = Crashed)
       [1..<chunks E])"

definition running :: "upload_env \<Rightarrow> pool \<Rightarrow> bool" where
  "running E s =
     (\<exists>i \<in> set [1..<chunks E]. ph s i \<noteq> Absent \<and> ph s i \<noteq> Pending \<and> ph s i \<noteq> Cancelled \<and>
        ph s i \<noteq> Finished \<and> ph s i \<noteq> Crashed)"

text \<open>
  One step of the thread that called \<^verbatim>\<open>upload()\<close>. While chunk 0 is not finished it does
  nothing here (that thread is then the worker of chunk 0). Then it submits
  \<^verbatim>\<open>range(1, chunks)\<close>; in the loop it takes the next completed future when there is one
  and tests the flag; after the loop it tests \<^verbatim>\<open>'url' not in self.data\<close>, which raises
  TypeError on \<^verbatim>\<open>None\<close>.
\<close>

definition coordinator :: "upload_env \<Rightarrow> pool \<Rightarrow> pool" where
  "coordinator E s =
     (case main s of
        Chunk0 \<Rightarrow>
          if ph s 0 = Finished
          then s\<lparr>ph := (\<lambda>i. if 1 \<le> i \<and> i < chunks E then Pending else ph s i),
                 main := Looping 0\<rparr>
          else s
      | Looping k \<Rightarrow>
          if k < chunks E - 1 then
            if k < completed E s then
              if failed (gf s) then s\<lparr>ph := cancel_all (ph s), main := Shutdown\<rparr>
              else s\<lparr>main := Looping (k + 1)\<rparr>
            else s
          else
            (case data (gf s) of
               None \<Rightarrow> s\<lparr>main := Raised TypeError\<rparr>
             | Some d \<Rightarrow> s\<lparr>main := Returned_self\<rparr>)
      | Shutdown \<Rightarrow> if running E s then s else s\<lparr>main := Returned_None\<rparr>
      | _ \<Rightarrow> s)"

text \<open>
  A KeyboardInterrupt reaches the thread of \<^verbatim>\<open>upload()\<close>: the loop catches it, cancels
  and returns; anywhere else it leaves \<^verbatim>\<open>upload()\<close>.
\<close>

definition interrupt :: "pool \<Rightarrow> pool" where
  "interrupt s =
     (case main s of
        Chunk0 \<Rightarrow> s\<lparr>main := Raised KeyboardInterrupt\<rparr>
      | Looping k \<Rightarrow> s\<lparr>ph := cancel_all (ph s), main := Shutdown\<rparr>
      | Shutdown \<Rightarrow> s\<lparr>main := Raised KeyboardInterrupt\<rparr>
      | _ \<Rightarrow> s)"

text \<open>
  An interleaving is a list of events, each one step of one thread. The model allows
  every order of the steps, more than a pool of \<^verbatim>\<open>thread_num\<close> threads can produce.
  Chunk 0 runs in the thread of \<^verbatim>\<open>upload()\<close> and stops with it.
\<close>

datatype event = Work nat | PostError nat | JsonError nat | Main | Interrupt

fun step :: "upload_env \<Rightarrow> pool \<Rightarrow> event \<Rightarrow> pool" where
  "step E s (Work i) = (if i = 0 \<and> main s \<noteq> Chunk0 then s else work E i s)"
| "step E s (PostError i) = (if i = 0 \<and> main s \<noteq> Chunk0 then s else post_error i s)"
| "step E s (JsonError i) = (if i = 0 \<and> main s \<noteq> Chunk0 then s else json_error i s)"
| "step E s Main = coordinator E s"
| "step E s Interrupt = interrupt s"

definition run :: "upload_env \<Rightarrow> event list \<Rightarrow> pool \<Rightarrow> pool" where
  "run E evs s = foldl (step E) s evs"

text \<open>
  \<^verbatim>\<open>upload()\<close> up to the call \<^verbatim>\<open>self.upload_chunk(0, chunks)\<close>: the flag is cleared, no
  future exists, chunk 0 starts its request.
\<close>

definition upload_init :: "gfile \<Rightarrow> pool" where
  "upload_init g =
     \<lparr>gf = g\<lparr>failed := False\<rparr>, ph = (\<lambda>i. if i = 0 then Gen 0 else Absent), main = Chunk0\<rparr>"

text \<open>
  \<^verbatim>\<open>upload()\<close> before the first chunk: the source file must exist, the chunk count is
  computed, the two sizes are printed (\<open>lg\<close> as in \<open>bytes_to_size_str\<close>), and the server
  name is matched in the entry page (\<open>server\<close> is the group of the match; indexing
  \<^verbatim>\<open>None\<close> raises TypeError). The result is the chunk count and the state in which
  the first chunk starts.
\<close>

definition upload_start ::
  "(int \<Rightarrow> nat) \<Rightarrow> gfile \<Rightarrow> bool \<Rightarrow> nat \<Rightarrow> nat \<Rightarrow> string option \<Rightarrow> py_error + nat \<times> pool"
  where
  "upload_start lg g file_exists file_size chunk_size server =
     (if \<not> file_exists then Inl AssertionError
      else
        (case upload_chunks file_size chunk_size of
           Inl e \<Rightarrow> Inl e
         | Inr n \<Rightarrow>
             (case bytes_to_size_str lg (int file_size) of
                Inl e \<Rightarrow> Inl e
              | Inr s1 \<Rightarrow>
                  (case bytes_to_size_str lg (int chunk_size) of
                     Inl e \<Rightarrow> Inl e
                   | Inr s2 \<Rightarrow>
                       (case server of
                          None \<Rightarrow> Inl TypeError
                        | Some h \<Rightarrow> Inr (n, upload_init g))))))"

text \<open>The cursor has been advanced for the chunk.\<close>

definition stored :: "phase \<Rightarrow> bool" where
  "stored p = (p = Tail \<or> p = Finished)"

text \<open>
  The invariant of the cursor gate: the chunks whose advance is stored are those below
  the cursor; a chunk between the load and the store of its advance, or with its
  producer ended, is the one the cursor names; and no chunk but 0 exists before chunk 0
  has finished.
\<close>

definition cursor_inv :: "pool \<Rightarrow> bool" where
  "cursor_inv s =
     ((\<forall>k. stored (ph s k) \<longleftrightarrow> k < current_chunk (gf s)) \<and>
      (\<forall>k v. ph s k = Incr v \<longrightarrow> v = k \<and> current_chunk (gf s) = k) \<and>
      (\<forall>k. ph s k = Posted \<longrightarrow> current_chunk (gf s) = k) \<and>
      ((\<exists>i\<ge>1. ph s i \<noteq> Absent) \<longrightarrow> ph s 0 = Finished) \<and>
      (main s = Chunk0 \<longrightarrow> (\<forall>i\<ge>1. ph s i = Absent)))"


text \<open>Three sessions on which the theorems below are instantiated.\<close>

definition env_one :: upload_env where
  "env_one = \<lparr>chunks = 1, body_size = (\<lambda>i. 1), response = (\<lambda>i. [''status'' \<mapsto> JNum 1])\<rparr>"

definition env_two :: upload_env where
  "env_two = \<lparr>chunks = 2, body_size = (\<lambda>i. 1), response = (\<lambda>i. [''status'' \<mapsto> JNum 0])\<rparr>"


subsection \<open>Download\<close>

text \<open>
  \<^verbatim>\<open>re.search(r'^https?:\/\/\d+?\.gigafile\.nu\/([a-z0-9-]+)$', self.uri)\<close>: group 1 of the
  match, or \<open>None\<close>.
\<close>

definition strip_prefix :: "string \<Rightarrow> string \<Rightarrow> string option" where
  "strip_prefix p s = (if take (length p) s = p then Some (drop (length p) s) else None)"

definition is_id_char :: "char \<Rightarrow> bool" where
  "is_id_char c = (c \<in> set ''abcdefghijklmnopqrstuvwxyz0123456789-'')"

definition uri_re :: "string \<Rightarrow> string option" where
  "uri_re uri =
     (case (case strip_prefix ''https://'' uri of
              Some r \<Rightarrow> Some r
            | None \<Rightarrow> strip_prefix ''http://'' uri) of
        None \<Rightarrow> None
      | Some r \<Rightarrow>
          if takeWhile is_digit r = [] then None
          else
            (case strip_prefix ''.gigafile.nu/'' (dropWhile is_digit r) of
               None \<Rightarrow> None
             | Some r2 \<Rightarrow>
                 if takeWhile is_id_char r2 \<noteq> [] \<and>
                    (dropWhile is_id_char r2 = [] \<or> dropWhile is_id_char r2 = [CHR 0x0A])
                 then Some (takeWhile is_id_char r2)
                 else None))"

text \<open>\<^verbatim>\<open>self.uri.rsplit('/', 1)[0]\<close>.\<close>

definition rsplit_slash :: "string \<Rightarrow> string" where
  "rsplit_slash s =
     (if CHR ''/'' \<in> set s then rev (tl (dropWhile (\<lambda>c. c \<noteq> CHR ''/'') (rev s))) else s)"

text \<open>\<^verbatim>\<open>re.sub(r'[\\/:*?"<>|]', '_', web_name)\<close>.\<close>

definition sanitize :: "string \<Rightarrow> string" where
  "sanitize web_name =
     map (\<lambda>c. if c \<in> {CHR 0x5C, CHR ''/'', CHR '':'', CHR ''*'', CHR ''?'', CHR 0x22,
                        CHR ''<'', CHR ''>'', CHR ''|''}
               then CHR ''_'' else c) web_name"

text \<open>
  What the landing page yields to the selectors and patterns of \<^verbatim>\<open>download\<close>. Each
  field is the value the right-hand side of one assignment of the \<^verbatim>\<open>try\<close> block
  computes, \<open>None\<close> when it raises (an element, an attribute or a match is absent).
\<close>

record page =
  contents_matomete :: bool
  matomete_name :: "string option"
  matomete_id :: "string option"
  matomete_size :: "string option"
  dl_size :: "string option"
  dl_name :: "string option"

text \<open>The local variables the \<^verbatim>\<open>try\<close> block binds; \<open>None\<close> is an unbound name.\<close>

record locals =
  web_name :: "string option"
  file_id :: "string option"
  size_str :: "string option"

datatype msg =
    Invalid_URL
  | Matomete_mode
  | Name_size_id string string string
  | Failed_to_parse
  | Filesize_check int nat
  | Succeeded
  | Corrupt string

text \<open>
  The \<^verbatim>\<open>try\<close> block with its \<^verbatim>\<open>except Exception\<close>: the assignments run in the order of
  the source and stop at the first that raises, which is printed and not raised again.
\<close>

definition parse_page :: "string \<Rightarrow> page \<Rightarrow> locals \<times> msg list" where
  "parse_page m1 pg =
     (if contents_matomete pg then
        (case matomete_name pg of
           None \<Rightarrow> (\<lparr>web_name = None, file_id = None, size_str = None\<rparr>,
                     [Matomete_mode, Failed_to_parse])
         | Some n \<Rightarrow>
             (case matomete_id pg of
                None \<Rightarrow> (\<lparr>web_name = Some n, file_id = None, size_str = None\<rparr>,
                          [Matomete_mode, Failed_to_parse])
              | Some f \<Rightarrow>
                  (case matomete_size pg of
                     None \<Rightarrow> (\<lparr>web_name = Some n, file_id = Some f, size_str = None\<rparr>,
                               [Matomete_mode, Failed_to_parse])
                   | Some z \<Rightarrow> (\<lparr>web_name = Some n, file_id = Some f, size_str = Some z\<rparr>,
                                 [Matomete_mode, Name_size_id n z f]))))
      else
        (case dl_size pg of
           None \<Rightarrow> (\<lparr>web_name = None, file_id = Some m1, size_str = None\<rparr>, [Failed_to_parse])
         | Some z \<Rightarrow>
             (case dl_name pg of
                None \<Rightarrow> (\<lparr>web_name = None, file_id = Some m1, size_str = Some z\<rparr>,
                          [Failed_to_parse])
              | Some n \<Rightarrow> (\<lparr>web_name = Some n, file_id = Some m1, size_str = Some z\<rparr>,
                            [Name_size_id n z m1]))))"

text \<open>
  The \<^verbatim>\<open>Content-Length\<close> header of the reply, as \<^verbatim>\<open>int(r.headers['Content-Length'])\<close>
  sees it: absent (the case-insensitive dictionary of \<^verbatim>\<open>requests\<close> looks the key up in
  lower case and raises KeyError with that key), present but not an integer literal
  (\<^verbatim>\<open>int\<close> raises ValueError), or an integer.
\<close>

datatype header = Missing | Malformed | Declared int

text \<open>
  The fields of the \<^verbatim>\<open>GFile\<close> that \<^verbatim>\<open>download\<close> reads, and what the network and the
  operating system answer: the landing page, the cookies of the session, the reply to
  the request for the file (whether \<^verbatim>\<open>raise_for_status\<close> passes, the \<^verbatim>\<open>Content-Length\<close>
  header, the blocks \<^verbatim>\<open>iter_content\<close> yields, and the exception that ends the stream
  when the connection breaks), the exception with which \<^verbatim>\<open>open(path, 'wb')\<close> is refused
  and the one with which \<^verbatim>\<open>rename(src, dst)\<close> is refused for reasons that lie in the
  file system (a directory in the way, a missing directory, permissions). The two
  requests themselves are taken to be answered.
\<close>

record dl_config =
  uri :: string
  password :: "string option"
  aria2 :: "string option"

record dl_env =
  landing :: page
  cookie_str :: string
  status_ok :: bool
  content_length :: header
  body :: "bytes list"
  stream_error :: "py_error option"
  open_error :: "string \<Rightarrow> py_error option"
  rename_error :: "string \<Rightarrow> string \<Rightarrow> py_error option"

text \<open>
  The state \<^verbatim>\<open>download\<close> changes: the files of the working directory, the lines printed
  and the command handed to \<^verbatim>\<open>subprocess.run\<close>.
\<close>

record dl_state =
  files :: "string \<rightharpoonup> bytes"
  printed :: "msg list"
  command :: "string list option"

text \<open>\<^verbatim>\<open>str.split(' ')\<close>.\<close>

fun split_blank :: "string \<Rightarrow> string list" where
  "split_blank [] = [[]]"
| "split_blank (c # cs) =
     (if c = CHR '' '' then [] # split_blank cs
      else (case split_blank cs of w # ws \<Rightarrow> (c # w) # ws | [] \<Rightarrow> [[c]]))"

text \<open>
  Lines 247 to 253: the file name (the caller's, or the page's name with the characters
  a file name cannot hold replaced) and the URL of the file. Reading an unbound local
  raises UnboundLocalError.
\<close>

definition resolve_target ::
  "dl_config \<Rightarrow> string option \<Rightarrow> locals \<Rightarrow> py_error + string \<times> string" where
  "resolve_target cfg filename vars =
     (case (if filename = None \<or> filename = Some []
            then (case web_name vars of
                    None \<Rightarrow> Inl (UnboundLocalError ''web_name'')
                  | Some w \<Rightarrow> Inr (sanitize w))
            else Inr (the filename)) of
        Inl e \<Rightarrow> Inl e
      | Inr name \<Rightarrow>
          (case file_id vars of
             None \<Rightarrow> Inl (UnboundLocalError ''file_id'')
           | Some f \<Rightarrow>
               Inr (name,
                    rsplit_slash (uri cfg) @ ''/download.php?file='' @ f @
                    (if password cfg = None \<or> password cfg = Some [] then []
                     else ''&dlkey='' @ the (password cfg)))))"

text \<open>
  \<^verbatim>\<open>os.rename(src, dst)\<close> on the files of the working directory. The empty string is
  no path: with it as destination the call raises FileNotFoundError on every system,
  as it does when the source does not exist. Otherwise the operating system refuses
  with the exception the environment gives, or moves the content to the destination,
  replacing a file that is there.
\<close>

definition os_rename ::
  "(string \<Rightarrow> string \<Rightarrow> py_error option) \<Rightarrow> string \<Rightarrow> string \<Rightarrow>
   (string \<rightharpoonup> bytes) \<Rightarrow> py_error + (string \<rightharpoonup> bytes)" where
  "os_rename refused src dst fs =
     (if dst = [] then Inl FileNotFoundError
      else
        (case fs src of
           None \<Rightarrow> Inl FileNotFoundError
         | Some content \<Rightarrow>
             (case refused src dst of
                Some e \<Rightarrow> Inl e
              | None \<Rightarrow> Inr ((fs(src := None))(dst \<mapsto> content)))))"

text \<open>
  Lines 262 to 283, the direct mode: the body is streamed into \<^verbatim>\<open>filename + '.dl'\<close>, the
  size of that file is compared with the declared one, and when they agree
  \<^verbatim>\<open>Succeeded.\<close> is printed and then the file is renamed. An exception of \<^verbatim>\<open>rename\<close>
  leaves the function after the message, with the temporary file in place.
\<close>

definition download_direct ::
  "string \<Rightarrow> dl_env \<Rightarrow> dl_state \<Rightarrow> dl_state \<times> (py_error + string option)" where
  "download_direct filename env st =
     (let temp = filename @ ''.dl'' in
      if \<not> status_ok env then (st, Inl HTTPError)
      else
        (case content_length env of
           Missing \<Rightarrow> (st, Inl (KeyError ''content-length''))
         | Malformed \<Rightarrow> (st, Inl ValueError)
         | Declared filesize \<Rightarrow>
             (case open_error env temp of
                Some e \<Rightarrow> (st, Inl e)
              | None \<Rightarrow>
                  let st1 = st\<lparr>files := (files st)(temp \<mapsto> concat (body env))\<rparr> in
                  (case stream_error env of
                     Some e \<Rightarrow> (st1, Inl e)
                   | None \<Rightarrow>
                       let filesize_downloaded = length (concat (body env));
                           st2 = st1\<lparr>printed := printed st1 @
                                     [Filesize_check filesize filesize_downloaded]\<rparr>
                       in if filesize = int filesize_downloaded
                          then
                            (let st3 = st2\<lparr>printed := printed st2 @ [Succeeded]\<rparr> in
                             case os_rename (rename_error env) temp filename (files st3) of
                               Inl e \<Rightarrow> (st3, Inl e)
                             | Inr fs \<Rightarrow> (st3\<lparr>files := fs\<rparr>, Inr (Some filename)))
                          else (st2\<lparr>printed := printed st2 @ [Corrupt temp]\<rparr>,
                                Inr (Some filename))))))"

text \<open>\<^verbatim>\<open>GFile.download\<close>.\<close>

definition download ::
  "dl_config \<Rightarrow> string option \<Rightarrow> dl_env \<Rightarrow> dl_state \<Rightarrow> dl_state \<times> (py_error + string option)"
  where
  "download cfg filename env st =
     (case uri_re (uri cfg) of
        None \<Rightarrow> (st\<lparr>printed := printed st @ [Invalid_URL]\<rparr>, Inr None)
      | Some m1 \<Rightarrow>
          (case parse_page m1 (landing env) of
             (vars, msgs) \<Rightarrow>
               let st1 = st\<lparr>printed := printed st @ msgs\<rparr> in
               (case resolve_target cfg filename vars of
                  Inl e \<Rightarrow> (st1, Inl e)
                | Inr (name, download_url) \<Rightarrow>
                    if aria2 cfg \<noteq> None \<and> aria2 cfg \<noteq> Some []
                    then (st1\<lparr>command :=
                                Some ([''aria2c'', download_url, ''--header'',
                                       ''Cookie: '' @ cookie_str env, ''-o'', name] @
                                      split_blank (the (aria2 cfg)))\<rparr>,
                          Inr None)
                    else download_direct name env st1)))"

text \<open>
  Downloads on which the theorems below are instantiated: a single-file page whose
  \<^verbatim>\<open>#dl\<close> element (the display name) is absent, one whose \<^verbatim>\<open>#dl\<close> element has an
  empty text, and a reply of three bytes in a directory where the operating system
  refuses nothing.
\<close>

definition page_no_name :: page where
  "page_no_name =
     \<lparr>contents_matomete = False, matomete_name = None, matomete_id = None,
      matomete_size = None, dl_size = Some ''1.5 MB'', dl_name = None\<rparr>"

definition page_empty_name :: page where
  "page_empty_name =
     \<lparr>contents_matomete = False, matomete_name = None, matomete_id = None,
      matomete_size = None, dl_size = Some ''1.5 MB'', dl_name = Some []\<rparr>"

definition cfg_direct :: dl_config where
  "cfg_direct = \<lparr>uri = ''https://12.gigafile.nu/abc123'', password = None, aria2 = None\<rparr>"

definition env_three_bytes :: "int \<Rightarrow> dl_env" where
  "env_three_bytes declared =
     \<lparr>landing = page_no_name, cookie_str = ''a=b'', status_ok = True,
      content_length = Declared declared, body = [''ab'', ''c''], stream_error = None,
      open_error = (\<lambda>path. None), rename_error = (\<lambda>src dst. None)\<rparr>"

definition env_empty_name :: dl_env where
  "env_empty_name =
     \<lparr>landing = page_empty_name, cookie_str = ''a=b'', status_ok = True,
      content_length = Declared 3, body = [''ab'', ''c''], stream_error = None,
      open_error = (\<lambda>path. None), rename_error = (\<lambda>src dst. None)\<rparr>"

definition st_empty :: dl_state where
  "st_empty = \<lparr>files = Map.empty, printed = [], command = None\<rparr>"

section \<open>Properties\<close>

subsection \<open>Binary64 rounding\<close>

lemma bit_length_bounds:
  "0 < n \<Longrightarrow> 2 ^ (bit_length n - 1) \<le> n \<and> n < 2 ^ bit_length n"
proof (induction n rule: bit_length.induct)
  case (1 n)
  show ?case
  proof (cases "n div 2 = 0")
    case True
    with 1 have "n = 1" by (simp add: div_eq_0_iff)
    then show ?thesis by (simp add: bit_length.simps)
  next
    case False
    then have pos: "0 < n div 2" by simp
    from 1 pos have ih:
      "2 ^ (bit_length (n div 2) - 1) \<le> n div 2 \<and> n div 2 < 2 ^ bit_length (n div 2)"
      by simp
    have bl: "bit_length n = Suc (bit_length (n div 2))"
      using 1 by (subst bit_length.simps) simp
    have blpos: "0 < bit_length (n div 2)"
      using pos by (subst bit_length.simps) simp
    then have e: "2 ^ (bit_length (n div 2)) = 2 * (2::nat) ^ (bit_length (n div 2) - 1)"
      by (cases "bit_length (n div 2)") simp_all
    from ih show ?thesis unfolding bl using e by simp linarith
  qed
qed

lemma bit_length_le: "n < 2 ^ k \<Longrightarrow> bit_length n \<le> k"
proof (cases "n = 0")
  case True
  then show ?thesis by (simp add: bit_length.simps)
next
  case False
  assume "n < 2 ^ k"
  moreover have "2 ^ (bit_length n - 1) \<le> n" using False bit_length_bounds by simp
  ultimately have "(2::nat) ^ (bit_length n - 1) < 2 ^ k" by linarith
  then have "bit_length n - 1 < k" by (rule power_less_imp_less_exp [rotated]) simp
  then show ?thesis by simp
qed

lemma rne_div_le: "0 < d \<Longrightarrow> rne_div n d \<le> n div d + 1"
  by (simp add: rne_div_def Let_def)


lemma rne_div_upper: "0 < d \<Longrightarrow> n \<le> z * d \<Longrightarrow> rne_div n d \<le> z"
proof -
  assume d: "0 < d" and n: "n \<le> z * d"
  have q: "n div d \<le> z" using d n
    by (metis div_le_mono div_mult_self_is_m)
  show ?thesis
  proof (cases "n div d = z")
    case True
    then have "z * d \<le> n" using d by (metis div_times_less_eq_dividend)
    with n have "n = z * d" by simp
    then show ?thesis using d by (simp add: rne_div_def)
  next
    case False
    with q have "n div d + 1 \<le> z" by simp
    with rne_div_le [OF d, of n] show ?thesis by simp
  qed
qed

lemma rne_div_lower: "0 < d \<Longrightarrow> (2 * z + 1) * d < 2 * n \<Longrightarrow> z + 1 \<le> rne_div n d"
proof -
  assume d: "0 < d" and n: "(2 * z + 1) * d < 2 * n"
  then have "z * d < n" by simp
  then have "z * d div d \<le> n div d" by (intro div_le_mono) simp
  then have q: "z \<le> n div d" using d by simp
  have ge: "n div d \<le> rne_div n d" by (simp add: rne_div_def Let_def)
  show ?thesis
  proof (cases "n div d = z")
    case True
    have "n = z * d + n mod d" using True by (metis div_mult_mod_eq)
    with n have "d < 2 * (n mod d)" by (simp add: algebra_simps)
    then show ?thesis using True by (simp add: rne_div_def Let_def)
  next
    case False
    with q ge show ?thesis by simp
  qed
qed


lemma bit_length_pos: "0 < n \<Longrightarrow> 0 < bit_length n"
  by (subst bit_length.simps) simp

text \<open>\<open>2 ^ e \<le> a / b\<close> for \<open>e = floor_log2_quot a b\<close>, without fractions.\<close>

lemma floor_log2_quot_lower:
  assumes "0 < a" and "0 < b"
  shows "b * 2 ^ nat (floor_log2_quot a b) \<le> a * 2 ^ nat (- floor_log2_quot a b)"
proof -
  define d where "d = int (bit_length a) - int (bit_length b)"
  show ?thesis
  proof (cases "b * 2 ^ nat d \<le> a * 2 ^ nat (- d)")
    case True
    then show ?thesis by (simp add: floor_log2_quot_def d_def Let_def)
  next
    case False
    then have e: "floor_log2_quot a b = d - 1"
      by (simp add: floor_log2_quot_def d_def Let_def)
    have la: "2 ^ (bit_length a - 1) \<le> a" using bit_length_bounds [OF assms(1)] by simp
    have lb: "b < 2 ^ bit_length b" using bit_length_bounds [OF assms(2)] by simp
    have pa: "0 < bit_length a" using assms(1) by (rule bit_length_pos)
    show ?thesis
    proof (cases "1 \<le> d")
      case True
      then have n: "nat (d - 1) + bit_length b = bit_length a - 1" "nat (1 - d) = 0"
        using pa by (simp_all add: d_def)
      have "b * 2 ^ nat (d - 1) \<le> 2 ^ bit_length b * 2 ^ nat (d - 1)"
        using lb by simp
      also have "\<dots> = 2 ^ (bit_length a - 1)"
        using n(1) by (simp flip: power_add add: add.commute)
      also have "\<dots> \<le> a" by (rule la)
      finally show ?thesis by (simp add: e n(2))
    next
      case False
      then have n: "nat (d - 1) = 0" "bit_length a - 1 + nat (1 - d) = bit_length b"
        using pa by (simp_all add: d_def)
      have "b \<le> 2 ^ bit_length b" using lb by simp
      also have "\<dots> = 2 ^ (bit_length a - 1) * 2 ^ nat (1 - d)"
        using n(2) by (simp flip: power_add)
      also have "\<dots> \<le> a * 2 ^ nat (1 - d)" using la by simp
      finally show ?thesis by (simp add: e n(1))
    qed
  qed
qed

lemma floor_log2_quot_range:
  assumes "0 < a" and "0 < b"
  shows "- int (bit_length b) \<le> floor_log2_quot a b \<and>
         floor_log2_quot a b \<le> int (bit_length a) - 1"
proof -
  have "0 < bit_length a" "0 < bit_length b" using assms by (simp_all add: bit_length_pos)
  then show ?thesis by (simp add: floor_log2_quot_def Let_def)
qed



subsection \<open>The size codec\<close>



lemma str_nat_nonempty: "str_nat n \<noteq> []"
  by (subst str_nat.simps) simp








text \<open>
  Claim C8 at two inputs. At \<open>n = 2 ^ 50 - 1\<close> the floating-point quotient
  \<^verbatim>\<open>math.log(n, 1024)\<close> is \<open>5.0\<close> (the logarithm of \<open>n\<close> rounds to that of \<open>2 ^ 50\<close>), so
  the index is 5 and \<^verbatim>\<open>bytes_to_size_str\<close> returns \<^verbatim>\<open>"1.00 PB"\<close>, although the value scaled
  to PB is below 1; with the exact index 4 the result would be \<^verbatim>\<open>"1024.00 TB"\<close>. At
  \<open>n = 1024 ^ 10\<close> the index is 10, past the last unit YB, and \<^verbatim>\<open>units[i]\<close> raises
  IndexError.
\<close>

theorem bytes_to_size_str_wrong_unit:
  "bytes_to_size_str (\<lambda>n. 5) (2 ^ 50 - 1) = Inr ''1.00 PB'' \<and>
   log1024_floor (2 ^ 50 - 1) = 4 \<and>
   bytes_to_size_str log1024_floor (2 ^ 50 - 1) = Inr ''1024.00 TB'' \<and>
   bytes_to_size_str log1024_floor (1024 ^ 10) = Inl IndexError"
  by (simp add: bytes_to_size_str_def log1024_floor_def fmt_02f_def units_fmt_def
      str_nat.simps int_to_float_def rne_div_def bit_length.simps Let_def)

text \<open>
  \<^verbatim>\<open>size_str_to_bytes\<close> on integers, on strings the pattern rejects, and on well-formed
  strings whose digits denote a number below \<open>2 ^ 53\<close>: there the result is the digits
  times \<open>1024\<close> to the index of the unit.
\<close>

lemma int_to_float_exact: "n < 2 ^ 53 \<Longrightarrow> int_to_float n = n"
proof -
  assume "n < 2 ^ 53"
  then have "bit_length n \<le> 53" by (rule bit_length_le)
  then show ?thesis by (simp add: int_to_float_def rne_div_def)
qed

lemma size_re_tail:
  assumes "\<forall>c \<in> set ds. is_digit c" and "tail = [] \<or> \<not> is_digit (hd tail)"
  shows "takeWhile is_digit (ds @ tail) = ds \<and> dropWhile is_digit (ds @ tail) = tail"
proof (cases tail)
  case Nil
  with assms show ?thesis by simp
next
  case (Cons c cs)
  with assms have "\<not> is_digit c" by simp
  with assms(1) Cons show ?thesis
    by (simp add: takeWhile_append2 dropWhile_append2)
qed

lemma upper_char_eval:
  "upper_char CHR ''K'' = CHR ''K''" "upper_char CHR ''M'' = CHR ''M''"
  "upper_char CHR ''G'' = CHR ''G''" "upper_char CHR ''T'' = CHR ''T''"
  "upper_char CHR ''P'' = CHR ''P''" "upper_char CHR ''E'' = CHR ''E''"
  "upper_char CHR ''Z'' = CHR ''Z''" "upper_char CHR ''Y'' = CHR ''Y''"
  "upper_char CHR ''k'' = CHR ''K''" "upper_char CHR ''m'' = CHR ''M''"
  "upper_char CHR ''g'' = CHR ''G''" "upper_char CHR ''t'' = CHR ''T''"
  "upper_char CHR ''p'' = CHR ''P''" "upper_char CHR ''e'' = CHR ''E''"
  "upper_char CHR ''z'' = CHR ''Z''" "upper_char CHR ''y'' = CHR ''Y''"
  "upper_char CHR ''B'' = CHR ''B''" "upper_char CHR ''b'' = CHR ''B''"
  "upper_char CHR ''I'' = CHR ''I''" "upper_char CHR ''i'' = CHR ''I''"
  by (simp_all add: upper_char_def)

lemma opt_suffix_accepts:
  assumes "suf \<in> set suffixes"
  shows "opt_suffix suf = []"
proof -
  from assms have "suf = [] \<or> suf = ''B'' \<or> suf = ''b'' \<or> suf = ''iB'' \<or> suf = ''ib'' \<or>
      suf = ''IB'' \<or> suf = ''Ib''"
    by (simp add: suffixes_def)
  then show ?thesis
    by (elim disjE) (simp_all add: opt_suffix_def upper_char_eval)
qed

lemma suffix_head:
  assumes "suf \<in> set suffixes"
  shows "suf = [] \<or> (\<not> is_digit (hd suf) \<and> hd suf \<noteq> CHR '' '' \<and>
       upper_char (hd suf) \<notin> set ''KMGTPEZY'')"
proof -
  from assms have "suf = [] \<or> suf = ''B'' \<or> suf = ''b'' \<or> suf = ''iB'' \<or> suf = ''ib'' \<or>
      suf = ''IB'' \<or> suf = ''Ib''"
    by (simp add: suffixes_def)
  then show ?thesis
    by (elim disjE) (simp_all add: is_digit_def upper_char_eval)
qed

lemma unit_head:
  assumes "(u, i) \<in> set unit_table"
  shows "u = [] \<and> i = 0 \<or>
     (\<exists>c. u = [c] \<and> \<not> is_digit c \<and> c \<noteq> CHR '' '' \<and> upper_char c \<in> set ''KMGTPEZY'' \<and>
        index_of [upper_char c] units_parse = Inr i)"
proof -
  from assms have
    "u = [] \<and> i = 0 \<or>
     u = ''K'' \<and> i = 1 \<or> u = ''M'' \<and> i = 2 \<or> u = ''G'' \<and> i = 3 \<or> u = ''T'' \<and> i = 4 \<or>
     u = ''P'' \<and> i = 5 \<or> u = ''E'' \<and> i = 6 \<or> u = ''Z'' \<and> i = 7 \<or> u = ''Y'' \<and> i = 8 \<or>
     u = ''k'' \<and> i = 1 \<or> u = ''m'' \<and> i = 2 \<or> u = ''g'' \<and> i = 3 \<or> u = ''t'' \<and> i = 4 \<or>
     u = ''p'' \<and> i = 5 \<or> u = ''e'' \<and> i = 6 \<or> u = ''z'' \<and> i = 7 \<or> u = ''y'' \<and> i = 8"
    by (simp add: unit_table_def)
  then show ?thesis
    by (elim disjE conjE) (simp_all add: is_digit_def upper_char_eval units_parse_def)
qed


lemma unit_index_bound: "(u, i) \<in> set unit_table \<Longrightarrow> i \<le> 8"
  by (auto simp: unit_table_def)

lemma size_re_accepts:
  assumes "ds \<noteq> []" and "\<forall>c \<in> set ds. is_digit c"
    and sp: "sp = [] \<or> sp = '' ''"
    and u: "(u, i) \<in> set unit_table"
    and suf: "suf \<in> set suffixes"
  shows "size_re (ds @ sp @ u @ suf) = Some (ds, u)"
proof -
  define rest where "rest = u @ suf"
  note uh = unit_head [OF u]
  note sh = suffix_head [OF suf]
  have rh: "rest = [] \<or> (\<not> is_digit (hd rest) \<and> hd rest \<noteq> CHR '' '')"
    using uh sh by (auto simp: rest_def)
  have th: "sp @ rest = [] \<or> \<not> is_digit (hd (sp @ rest))"
    using sp rh by (auto simp: is_digit_def)
  have ob: "opt_blank (sp @ rest) = rest"
    using sp rh by (cases rest) (auto simp: opt_blank_def)
  have ug: "unit_group rest = u"
  proof (cases "u = []")
    case True
    with sh show ?thesis by (cases suf) (auto simp: rest_def unit_group_def)
  next
    case False
    with uh obtain c where "u = [c]" "upper_char c \<in> set ''KMGTPEZY''" by blast
    then show ?thesis by (simp add: rest_def unit_group_def)
  qed
  have dr: "drop (length u) rest = suf" by (simp add: rest_def)
  note t = size_re_tail [OF assms(2) th]
  have "size_re (ds @ sp @ rest) = Some (ds, u)"
    using assms(1)
    by (simp add: size_re_def Let_def t [THEN conjunct1] t [THEN conjunct2] ob ug dr
        opt_suffix_accepts [OF suf])
  then show ?thesis by (simp add: rest_def)
qed

lemma size_str_to_bytes_exact:
  assumes "ds \<noteq> []" and "\<forall>c \<in> set ds. is_digit c" and small: "int_of_digits ds < 2 ^ 53"
    and sp: "sp = [] \<or> sp = '' ''"
    and u: "(u, i) \<in> set unit_table"
    and suf: "suf \<in> set suffixes"
  shows "size_str_to_bytes (PyStr (ds @ sp @ u @ suf)) = Inr (int (int_of_digits ds * 1024 ^ i))"
proof -
  define n where "n = int_of_digits ds"
  have re: "size_re (ds @ sp @ u @ suf) = Some (ds, u)"
    using assms(1,2) sp u suf by (rule size_re_accepts)
  have ix: "index_of (map upper_char (if u = [] then ''B'' else u)) units_parse = Inr i"
    using unit_head [OF u] by (auto simp: units_parse_def upper_char_eval)
  have f: "int_to_float n = n" using small by (simp add: int_to_float_exact n_def)
  have i8: "i \<le> 8" using u by (rule unit_index_bound)
  then have "(1024::nat) ^ i \<le> 1024 ^ 8" by (intro power_increasing) simp_all
  moreover have "n \<le> 2 ^ 53" using small by (simp add: n_def)
  ultimately have "1024 ^ i * n \<le> 1024 ^ 8 * 2 ^ 53" by (rule mult_le_mono)
  then have p: "\<not> 2 ^ 1024 \<le> 1024 ^ i * n" by simp
  have q: "\<not> 2 ^ 1024 \<le> n" using small by (simp add: n_def)
  show ?thesis
    using re ix f p q
    by (simp add: size_str_to_bytes_def Let_def mult.commute flip: n_def)
qed

lemma size_str_to_bytes_other:
  "size_str_to_bytes (PyInt n) = Inr n"
  "size_re s = None \<Longrightarrow> size_str_to_bytes (PyStr s) = Inl AssertionError"
  by (simp_all add: size_str_to_bytes_def)

text \<open>
  Claim C7 at the input \<^verbatim>\<open>"9007199254740993"\<close> (\<open>2 ^ 53 + 1\<close>, no unit): the product
  \<^verbatim>\<open>math.pow(1024, 0) * 9007199254740993\<close> is a float, and the function returns
  9007199254740992, not the digits times \<open>1024 ^ 0\<close>.
\<close>

theorem size_str_to_bytes_rounds:
  "int_of_digits ''9007199254740993'' = 9007199254740993 \<and>
   size_str_to_bytes (PyStr ''9007199254740993'') = Inr 9007199254740992"
  by (simp add: size_str_to_bytes_def size_re_def opt_blank_def unit_group_def opt_suffix_def
      is_digit_def upper_char_def units_parse_def
      int_to_float_def int_of_digits_def digit_val_def rne_div_def bit_length.simps)

subsection \<open>Copying a byte range\<close>

lemma split_loop_blocks:
  assumes "int sz \<le> output_size" and "0 < ccs"
  shows "\<exists>blocks. split_loop content output_size ccs pos sz out = Inr (out @ blocks) \<and>
           concat blocks = take (nat (output_size - int sz)) (drop pos content) \<and>
           (\<forall>b \<in> set blocks. b \<noteq> [] \<and> length b \<le> ccs)"
  using assms
proof (induction content output_size ccs pos sz out rule: split_loop.induct)
  case (1 content output_size ccs pos sz out)
  define n where "n = nat (min (int ccs) (output_size - int sz))"
  define chunk where "chunk = file_read content pos n"
  show ?case
  proof (cases "int sz = output_size")
    case True
    then show ?thesis by (subst split_loop.simps) simp
  next
    case False
    with "1.prems" have lt: "int sz < output_size" by simp
    then have npos: "0 < n" using "1.prems" by (simp add: n_def)
    have nle: "n \<le> nat (output_size - int sz)" by (simp add: n_def)
    show ?thesis
    proof (cases "chunk = []")
      case True
      then have "drop pos content = []" using npos by (simp add: chunk_def file_read_def)
      moreover have "split_loop content output_size ccs pos sz out = Inr out"
        using lt True by (subst split_loop.simps) (simp add: chunk_def n_def)
      ultimately show ?thesis by simp
    next
      case False
      have len: "length chunk \<le> n" by (simp add: chunk_def file_read_def)
      have step: "split_loop content output_size ccs pos sz out =
          split_loop content output_size ccs (pos + length chunk) (sz + length chunk)
            (out @ [chunk])"
        using lt False by (subst split_loop.simps) (simp add: chunk_def n_def)
      have le': "int (sz + length chunk) \<le> output_size"
        using len nle lt by linarith
      from "1.IH" [folded n_def, folded chunk_def] lt False le' "1.prems"(2)
      obtain blocks where b:
        "split_loop content output_size ccs (pos + length chunk) (sz + length chunk)
           (out @ [chunk]) = Inr ((out @ [chunk]) @ blocks)"
        "concat blocks = take (nat (output_size - int (sz + length chunk)))
           (drop (pos + length chunk) content)"
        "\<forall>b \<in> set blocks. b \<noteq> [] \<and> length b \<le> ccs"
        by (auto simp: not_less)
      have ch: "chunk = take (length chunk) (drop pos content)"
        by (simp add: chunk_def file_read_def min_def)
      have r: "nat (output_size - int sz) =
          length chunk + nat (output_size - int (sz + length chunk))"
        using le' by linarith
      have "take (nat (output_size - int sz)) (drop pos content) =
          take (length chunk) (drop pos content) @
          take (nat (output_size - int (sz + length chunk)))
            (drop (length chunk) (drop pos content))"
        unfolding r by (rule take_add)
      also have "\<dots> = chunk @ concat blocks"
        using ch b(2) by (simp add: add.commute)
      finally have c:
        "concat (chunk # blocks) = take (nat (output_size - int sz)) (drop pos content)"
        by simp
      have "length chunk \<le> ccs" using len by (simp add: n_def)
      with b(3) False have "\<forall>b \<in> set (chunk # blocks). b \<noteq> [] \<and> length b \<le> ccs" by simp
      with step b(1) c show ?thesis by (intro exI [of _ "chunk # blocks"]) simp
    qed
  qed
qed

text \<open>
  Claim C6. For a start offset within the file (\<open>start \<le> st_size\<close>), a target size
  \<open>len \<ge> 0\<close> and a positive copy buffer size, \<^verbatim>\<open>split_file\<close> returns normally, and what
  it wrote to the destination is the bytes of the source from offset \<open>start\<close> on, cut
  after \<open>min len (st_size - start)\<close> bytes (exactly that many when the file still has
  the size \<^verbatim>\<open>stat\<close> reported, fewer only when the source ends early), written in
  non-empty blocks of at most the buffer size.
\<close>

theorem split_file_copies_range:
  assumes "start \<le> st_size" and "0 < chunk_copy_size" and "0 \<le> len"
  shows "\<exists>blocks.
     split_file st_size input_file out (Some len) start chunk_copy_size = Inr (out @ blocks) \<and>
     concat blocks = take (min (nat len) (st_size - start)) (drop start input_file) \<and>
     (st_size = length input_file \<longrightarrow> length (concat blocks) = min (nat len) (st_size - start)) \<and>
     (\<forall>b \<in> set blocks. b \<noteq> [] \<and> length b \<le> chunk_copy_size)"
proof -
  define output_size where "output_size = min len (int st_size - int start)"
  have nn: "int 0 \<le> output_size" using assms by (simp add: output_size_def)
  from split_loop_blocks [OF nn assms(2)] obtain blocks where b:
    "split_loop input_file output_size chunk_copy_size start 0 out = Inr (out @ blocks)"
    "concat blocks = take (nat (output_size - int 0)) (drop start input_file)"
    "\<forall>b \<in> set blocks. b \<noteq> [] \<and> length b \<le> chunk_copy_size"
    by blast
  have n: "nat (output_size - int 0) = min (nat len) (st_size - start)"
    using assms by (simp add: output_size_def min_def) linarith
  from b n show ?thesis
    by (intro exI [of _ blocks]) (auto simp: split_file_def output_size_def)
qed

theorem split_file_copies_range_witness:
  "split_file 10 ''abcdefghij'' [''xy''] (Some 5) 2 2 = Inr [''xy'', ''cd'', ''ef'', ''g'']"
  using split_file_copies_range [of 2 10 2 5 "''abcdefghij''" "[''xy'']"]
  by (simp add: split_file_def split_loop.simps file_read_def)

subsection \<open>The cursor gate of the upload\<close>

lemma finish_chunk_cursor: "current_chunk (finish_chunk r g) = current_chunk g"
  by (simp add: finish_chunk_def Let_def)

lemma cursor_inv_init: "cursor_inv (upload_init gfile_init)"
  by (simp add: cursor_inv_def upload_init_def gfile_init_def stored_def)

lemma cursor_inv_upd:
  assumes inv: "cursor_inv s"
    and ph': "ph s' = (ph s)(i := p)"
    and c': "current_chunk (gf s') = (if ph s i = Incr i then i + 1 else current_chunk (gf s))"
    and m': "main s' = Chunk0 \<longrightarrow> main s = Chunk0"
    and p: "stored p \<longleftrightarrow> stored (ph s i) \<or> ph s i = Incr i"
           "p \<noteq> Absent"
           "\<forall>v. p = Incr v \<longrightarrow> ph s i = Posted \<and> v = i"
           "p = Posted \<longrightarrow> current_chunk (gf s) = i \<and> ph s i \<noteq> Incr i"
           "ph s i \<noteq> Absent"
           "i = 0 \<and> ph s 0 = Finished \<longrightarrow> p = Finished"
  shows "cursor_inv s'"
proof -
  let ?c = "current_chunk (gf s)"
  let ?c' = "current_chunk (gf s')"
  from inv have st: "stored (ph s k) \<longleftrightarrow> k < ?c" for k by (simp add: cursor_inv_def)
  from inv have inc: "ph s k = Incr v \<Longrightarrow> v = k \<and> ?c = k" for k v by (simp add: cursor_inv_def)
  from inv have po: "ph s k = Posted \<Longrightarrow> ?c = k" for k by (simp add: cursor_inv_def)
  from inv have ab: "(\<exists>j\<ge>1. ph s j \<noteq> Absent) \<Longrightarrow> ph s 0 = Finished"
    by (simp add: cursor_inv_def)
  from inv have c0: "main s = Chunk0 \<Longrightarrow> \<forall>j\<ge>1. ph s j = Absent" by (simp add: cursor_inv_def)
  have 4: "(\<exists>j\<ge>1. ph s' j \<noteq> Absent) \<longrightarrow> ph s' 0 = Finished"
  proof
    assume "\<exists>j\<ge>1. ph s' j \<noteq> Absent"
    then obtain j where j: "1 \<le> j" "ph s' j \<noteq> Absent" by blast
    then have "ph s j \<noteq> Absent" using ph' p(5) by (cases "j = i") auto
    with j ab have f: "ph s 0 = Finished" by blast
    show "ph s' 0 = Finished" using f p(6) ph' by (cases "i = 0") auto
  qed
  have 5: "main s' = Chunk0 \<longrightarrow> (\<forall>j\<ge>1. ph s' j = Absent)"
  proof (intro impI allI)
    fix j :: nat
    assume "main s' = Chunk0" and j: "1 \<le> j"
    then have a: "\<forall>j\<ge>1. ph s j = Absent" using c0 m' by simp
    then have "i = 0" using p(5) by (cases "i = 0") auto
    then show "ph s' j = Absent" using a j ph' by simp
  qed
  show ?thesis
  proof (cases "ph s i = Incr i")
    case True
    then have ci: "?c = i" using inc by blast
    have c1: "?c' = i + 1" using c' True by simp
    have sp: "stored p" using p(1) True by simp
    have oth: "k \<noteq> i \<Longrightarrow> ph s k \<noteq> Posted \<and> (\<forall>w. ph s k \<noteq> Incr w)" for k
      using inc [of k] po [of k] ci by auto
    have pn: "p \<noteq> Posted" "\<forall>v. p \<noteq> Incr v" using p(3,4) True by auto
    have 1: "stored (ph s' k) \<longleftrightarrow> k < ?c'" for k
      using st [of k] sp ci c1 ph' by (cases "k = i") auto
    have 2: "ph s' k = Incr v \<longrightarrow> v = k \<and> ?c' = k" for k v
      using oth [of k] pn ph' by (cases "k = i") auto
    have 3: "ph s' k = Posted \<longrightarrow> ?c' = k" for k
      using oth [of k] pn ph' by (cases "k = i") auto
    from 1 2 3 4 5 show ?thesis unfolding cursor_inv_def by blast
  next
    case False
    have c1: "?c' = ?c" using c' False by simp
    have sp: "stored p \<longleftrightarrow> stored (ph s i)" using p(1) False by simp
    have 1: "stored (ph s' k) \<longleftrightarrow> k < ?c'" for k
      using st [of k] sp c1 ph' by (cases "k = i") auto
    have 2: "ph s' k = Incr v \<longrightarrow> v = k \<and> ?c' = k" for k v
      using inc [of k v] p(3) po [of i] c1 ph' by (cases "k = i") auto
    have 3: "ph s' k = Posted \<longrightarrow> ?c' = k" for k
      using po [of k] p(4) c1 ph' by (cases "k = i") auto
    from 1 2 3 4 5 show ?thesis unfolding cursor_inv_def by blast
  qed
qed

lemma cursor_inv_work:
  assumes "cursor_inv s"
  shows "cursor_inv (work E i s)"
proof -
  from assms have inc: "ph s k = Incr v \<Longrightarrow> v = k \<and> current_chunk (gf s) = k" for k v
    by (simp add: cursor_inv_def)
  from assms have po: "ph s k = Posted \<Longrightarrow> current_chunk (gf s) = k" for k
    by (simp add: cursor_inv_def)
  show ?thesis
  proof (cases "ph s i")
    case Absent
    then show ?thesis using assms by (simp add: work_def)
  next
    case Cancelled
    then show ?thesis using assms by (simp add: work_def)
  next
    case Finished
    then show ?thesis using assms by (simp add: work_def)
  next
    case Crashed
    then show ?thesis using assms by (simp add: work_def)
  next
    case Pending
    show ?thesis
      by (rule cursor_inv_upd [OF assms, where i = i and p = "Gen 0"])
        (insert Pending, auto simp: work_def stored_def)
  next
    case (Gen offset)
    show ?thesis
    proof (cases "offset < body_size E i")
      case True
      show ?thesis
        by (rule cursor_inv_upd [OF assms, where i = i and p = "Gen (offset + update_tick)"])
          (insert Gen True, auto simp: work_def stored_def)
    next
      case False
      show ?thesis
      proof (cases "i = current_chunk (gf s)")
        case True
        show ?thesis
          by (rule cursor_inv_upd [OF assms, where i = i and p = Posted])
            (insert Gen False True, auto simp: work_def stored_def)
      next
        case ne: False
        then show ?thesis using assms Gen False by (simp add: work_def)
      qed
    qed
  next
    case Posted
    from po [OF Posted] have c: "current_chunk (gf s) = i" .
    show ?thesis
      by (rule cursor_inv_upd [OF assms, where i = i and p = "Incr i"])
        (insert Posted c, auto simp: work_def stored_def)
  next
    case (Incr v)
    from inc [OF Incr] have v: "v = i" "current_chunk (gf s) = i" by simp_all
    show ?thesis
      by (rule cursor_inv_upd [OF assms, where i = i and p = Tail])
        (insert Incr v, auto simp: work_def stored_def)
  next
    case Tail
    show ?thesis
      by (rule cursor_inv_upd [OF assms, where i = i and p = Finished])
        (insert Tail, auto simp: work_def stored_def finish_chunk_cursor)
  qed
qed

lemma cursor_inv_post_error:
  assumes "cursor_inv s"
  shows "cursor_inv (post_error i s)"
proof (cases "ph s i")
  case (Gen offset)
  show ?thesis
    by (rule cursor_inv_upd [OF assms, where i = i and p = "Gen 0"])
      (insert Gen, auto simp: post_error_def stored_def)
next
  case Posted
  show ?thesis
    by (rule cursor_inv_upd [OF assms, where i = i and p = "Gen 0"])
      (insert Posted, auto simp: post_error_def stored_def)
qed (simp_all add: post_error_def assms)

lemma cursor_inv_json_error:
  assumes "cursor_inv s"
  shows "cursor_inv (json_error i s)"
proof (cases "ph s i")
  case Posted
  show ?thesis
    by (rule cursor_inv_upd [OF assms, where i = i and p = Crashed])
      (insert Posted, auto simp: json_error_def stored_def)
qed (simp_all add: json_error_def assms)

lemma cursor_inv_cancel:
  assumes "cursor_inv s" and "gf s' = gf s" and "ph s' = cancel_all (ph s)"
    and "main s' \<noteq> Chunk0"
  shows "cursor_inv s'"
proof -
  have "stored (cancel_all (ph s) k) = stored (ph s k)" for k
    by (simp add: cancel_all_def stored_def)
  moreover have "cancel_all (ph s) k = Incr v \<longleftrightarrow> ph s k = Incr v" for k v
    by (simp add: cancel_all_def)
  moreover have "cancel_all (ph s) k = Posted \<longleftrightarrow> ph s k = Posted" for k
    by (simp add: cancel_all_def)
  moreover have "cancel_all (ph s) k = Absent \<longleftrightarrow> ph s k = Absent" for k
    by (simp add: cancel_all_def)
  moreover have "cancel_all (ph s) 0 = Finished \<longleftrightarrow> ph s 0 = Finished"
    by (simp add: cancel_all_def)
  ultimately show ?thesis
    using assms by (simp add: cursor_inv_def)
qed

lemma cursor_inv_main_only:
  assumes "cursor_inv s" and "gf s' = gf s" and "ph s' = ph s"
    and "main s' = Chunk0 \<longrightarrow> main s = Chunk0"
  shows "cursor_inv s'"
  using assms by (simp add: cursor_inv_def)

lemma cursor_inv_submit:
  assumes inv: "cursor_inv s" and fin: "ph s 0 = Finished" and m: "main s = Chunk0"
    and ph': "ph s' = (\<lambda>i. if 1 \<le> i \<and> i < chunks E then Pending else ph s i)"
    and gf': "gf s' = gf s" and m': "main s' \<noteq> Chunk0"
  shows "cursor_inv s'"
proof -
  from inv m have ab: "\<forall>i\<ge>1. ph s i = Absent" by (simp add: cursor_inv_def)
  have 1: "stored (ph s' k) \<longleftrightarrow> stored (ph s k)" for k
    using ab ph' by (auto simp: stored_def)
  have 2: "ph s' k = Incr v \<longleftrightarrow> ph s k = Incr v" for k v
    using ab ph' by auto
  have 3: "ph s' k = Posted \<longleftrightarrow> ph s k = Posted" for k
    using ab ph' by auto
  have 4: "ph s' 0 = Finished" using fin ph' by simp
  show ?thesis
    using inv unfolding cursor_inv_def 1 2 3 gf' using 4 m' by blast
qed

lemma cursor_inv_coordinator:
  assumes "cursor_inv s"
  shows "cursor_inv (coordinator E s)"
proof (cases "main s")
  case Chunk0
  show ?thesis
  proof (cases "ph s 0 = Finished")
    case True
    show ?thesis
      by (rule cursor_inv_submit [OF assms True Chunk0, where E = E])
        (simp_all add: coordinator_def Chunk0 True)
  next
    case False
    then show ?thesis using assms Chunk0 by (simp add: coordinator_def)
  qed
next
  case (Looping k)
  show ?thesis
  proof (cases "k < chunks E - 1 \<and> k < completed E s \<and> failed (gf s)")
    case True
    show ?thesis
      by (rule cursor_inv_cancel [OF assms]) (insert True, simp_all add: coordinator_def Looping)
  next
    case False
    show ?thesis
      by (rule cursor_inv_main_only [OF assms])
        (insert False, auto simp: coordinator_def Looping split: option.splits)
  qed
next
  case Shutdown
  show ?thesis
    by (rule cursor_inv_main_only [OF assms]) (auto simp: coordinator_def Shutdown)
qed (simp_all add: coordinator_def assms)

lemma cursor_inv_interrupt:
  assumes "cursor_inv s"
  shows "cursor_inv (interrupt s)"
proof (cases "main s")
  case Chunk0
  from assms Chunk0 have ab: "\<forall>i\<ge>1. ph s i = Absent" by (simp add: cursor_inv_def)
  from assms ab show ?thesis
    by (simp add: interrupt_def Chunk0 cursor_inv_def)
next
  case (Looping k)
  show ?thesis
    by (rule cursor_inv_cancel [OF assms]) (simp_all add: interrupt_def Looping)
next
  case Shutdown
  show ?thesis
    by (rule cursor_inv_main_only [OF assms]) (auto simp: interrupt_def Shutdown)
qed (simp_all add: interrupt_def assms)

lemma cursor_inv_step:
  assumes "cursor_inv s"
  shows "cursor_inv (step E s e)"
  using assms
  by (cases e)
    (simp_all add: cursor_inv_work cursor_inv_post_error cursor_inv_json_error
      cursor_inv_coordinator cursor_inv_interrupt)

lemma run_snoc: "run E (evs @ [e]) s = step E (run E evs s) e"
  by (simp add: run_def)

lemma cursor_inv_run:
  assumes "cursor_inv s"
  shows "cursor_inv (run E evs s)"
proof (induction evs rule: rev_induct)
  case Nil
  show ?case using assms by (simp add: run_def)
next
  case (snoc e evs)
  then show ?case by (simp add: run_snoc cursor_inv_step)
qed


text \<open>
  Claim C2. In every state an upload session of a fresh \<^verbatim>\<open>GFile\<close> reaches, under every
  interleaving of its threads, retried requests included: the chunks whose cursor
  advance has happened are exactly those below the cursor, so the advance of chunk
  \<open>k\<close> never precedes that of a chunk below \<open>k\<close>; the thread of chunk \<open>k\<close> reads the cursor
  for its advance only when the cursor is \<open>k\<close>, and its store takes the cursor to
  \<open>k + 1\<close>; the producer of chunk \<open>k\<close> ends only after all its slices (its offset has
  reached the body size) and with the cursor at \<open>k\<close>, and polls without any effect
  while the cursor is elsewhere; and no chunk other than 0 is submitted before chunk 0 has
  finished.
\<close>

theorem cursor_advances_in_order:
  assumes "s = run E evs (upload_init gfile_init)"
  shows "(\<forall>k. stored (ph s k) \<longleftrightarrow> k < current_chunk (gf s)) \<and>
         (\<forall>k v. ph s k = Incr v \<longrightarrow>
            v = k \<and> current_chunk (gf s) = k \<and>
            current_chunk (gf (work E k s)) = k + 1 \<and> stored (ph (work E k s) k)) \<and>
         (\<forall>k. ph s k = Posted \<longrightarrow> current_chunk (gf s) = k) \<and>
         (\<forall>k offset. ph s k = Gen offset \<and> ph (work E k s) k = Posted \<longrightarrow>
            body_size E k \<le> offset \<and> current_chunk (gf s) = k) \<and>
         (\<forall>k offset. ph s k = Gen offset \<and> body_size E k \<le> offset \<and> current_chunk (gf s) \<noteq> k \<longrightarrow>
            work E k s = s) \<and>
         ((\<exists>i\<ge>1. ph s i \<noteq> Absent) \<longrightarrow> ph s 0 = Finished)"
proof -
  have inv: "cursor_inv s"
    unfolding assms by (rule cursor_inv_run [OF cursor_inv_init])
  have 1: "\<forall>k. stored (ph s k) \<longleftrightarrow> k < current_chunk (gf s)"
    using inv by (simp add: cursor_inv_def)
  have 2: "\<forall>k v. ph s k = Incr v \<longrightarrow>
            v = k \<and> current_chunk (gf s) = k \<and>
            current_chunk (gf (work E k s)) = k + 1 \<and> stored (ph (work E k s) k)"
  proof (intro allI impI)
    fix k v assume a: "ph s k = Incr v"
    with inv have "v = k \<and> current_chunk (gf s) = k" by (simp add: cursor_inv_def)
    with a show "v = k \<and> current_chunk (gf s) = k \<and>
            current_chunk (gf (work E k s)) = k + 1 \<and> stored (ph (work E k s) k)"
      by (simp add: work_def stored_def)
  qed
  have 3: "\<forall>k. ph s k = Posted \<longrightarrow> current_chunk (gf s) = k"
    using inv by (simp add: cursor_inv_def)
  have 4: "\<forall>k offset. ph s k = Gen offset \<and> ph (work E k s) k = Posted \<longrightarrow>
            body_size E k \<le> offset \<and> current_chunk (gf s) = k"
    by (auto simp: work_def split: if_splits)
  have 5: "\<forall>k offset. ph s k = Gen offset \<and> body_size E k \<le> offset \<and>
            current_chunk (gf s) \<noteq> k \<longrightarrow> work E k s = s"
    by (auto simp: work_def)
  have 6: "(\<exists>i\<ge>1. ph s i \<noteq> Absent) \<longrightarrow> ph s 0 = Finished"
    using inv by (simp add: cursor_inv_def)
  from 1 2 3 4 5 6 show ?thesis by blast
qed


theorem cursor_advances_in_order_witness:
  "ph (run env_two [Work 0, Work 0, Work 0, Work 0, Work 0, Main, Work 1, Work 1, Work 1, Work 1]
         (upload_init gfile_init)) 1 = Incr 1 \<and>
   current_chunk (gf (run env_two
       [Work 0, Work 0, Work 0, Work 0, Work 0, Main, Work 1, Work 1, Work 1, Work 1]
         (upload_init gfile_init))) = 1 \<and>
   stored (ph (run env_two
       [Work 0, Work 0, Work 0, Work 0, Work 0, Main, Work 1, Work 1, Work 1, Work 1]
         (upload_init gfile_init)) 0) \<and>
   current_chunk (gf (work env_two 1 (run env_two
       [Work 0, Work 0, Work 0, Work 0, Work 0, Main, Work 1, Work 1, Work 1, Work 1]
         (upload_init gfile_init)))) = 2"
proof -
  define s where "s = run env_two
       [Work 0, Work 0, Work 0, Work 0, Work 0, Main, Work 1, Work 1, Work 1, Work 1]
         (upload_init gfile_init)"
  have a: "ph s 1 = Incr 1"
    unfolding s_def
    by (simp add: env_two_def run_def work_def coordinator_def upload_init_def gfile_init_def
        finish_chunk_def bad_status_def update_tick_def)
  note t = cursor_advances_in_order [OF s_def]
  note t1 = t [THEN conjunct1, rule_format]
  note t2 = t [THEN conjunct2, THEN conjunct1, rule_format, OF a]
  from t2 have c: "current_chunk (gf s) = 1" by simp
  from t2 have d: "current_chunk (gf (work env_two 1 s)) = 2" by simp
  from t1 [of 0] c have e: "stored (ph s 0)" by simp
  show ?thesis unfolding s_def [symmetric] using a c d e by simp
qed


subsection \<open>Failure of a chunk\<close>








subsection \<open>The result check of the upload\<close>

lemma finish_chunk_no_url:
  "r ''url'' = None \<Longrightarrow> data (finish_chunk r g) = data g"
  by (simp add: finish_chunk_def Let_def)

lemma no_url_step:
  assumes "\<forall>i. response E i ''url'' = None"
    and "data (gf s) = None \<and> main s \<noteq> Returned_self"
  shows "data (gf (step E s e)) = None \<and> main (step E s e) \<noteq> Returned_self"
proof (cases e)
  case (Work i)
  with assms show ?thesis
    by (cases "ph s i") (auto simp: work_def finish_chunk_no_url)
next
  case (PostError i)
  with assms show ?thesis
    by (cases "ph s i") (auto simp: post_error_def)
next
  case (JsonError i)
  with assms show ?thesis
    by (cases "ph s i") (auto simp: json_error_def)
next
  case Main
  with assms show ?thesis
    by (cases "main s") (auto simp: coordinator_def)
next
  case Interrupt
  with assms show ?thesis
    by (cases "main s") (auto simp: interrupt_def)
qed

text \<open>
  Claim C10. In an upload session of a fresh \<^verbatim>\<open>GFile\<close> in which no reply holds a
  \<^verbatim>\<open>url\<close> key, \<^verbatim>\<open>self.data\<close> is \<^verbatim>\<open>None\<close> in every reachable state, \<^verbatim>\<open>upload()\<close> never
  returns \<^verbatim>\<open>self\<close>, and whenever the loop is over (all futures were yielded without the
  flag being seen, in particular when there is a single chunk and the loop body never
  runs) the test \<^verbatim>\<open>'url' not in self.data\<close> raises TypeError.
\<close>

theorem upload_without_url_raises:
  assumes "\<forall>i. response E i ''url'' = None" and "s = run E evs (upload_init gfile_init)"
  shows "data (gf s) = None \<and> main s \<noteq> Returned_self \<and>
         (\<forall>k. main s = Looping k \<and> chunks E - 1 \<le> k \<longrightarrow> main (step E s Main) = Raised TypeError)"
proof -
  have inv: "data (gf (run E evs (upload_init gfile_init))) = None \<and>
      main (run E evs (upload_init gfile_init)) \<noteq> Returned_self"
  proof (induction evs rule: rev_induct)
    case Nil
    show ?case by (simp add: run_def upload_init_def gfile_init_def)
  next
    case (snoc e evs)
    then show ?case unfolding run_snoc by (rule no_url_step [OF assms(1)])
  qed
  then have d: "data (gf s) = None" and m: "main s \<noteq> Returned_self"
    by (simp_all add: assms(2))
  have "\<forall>k. main s = Looping k \<and> chunks E - 1 \<le> k \<longrightarrow> main (step E s Main) = Raised TypeError"
    using d by (auto simp: coordinator_def)
  with d m show ?thesis by blast
qed







theorem upload_without_url_raises_witness:
  "failed (gf (run env_one [Work 0, Work 0, Work 0, Work 0, Work 0, Main] (upload_init gfile_init))) \<and>
   main (run env_one [Work 0, Work 0, Work 0, Work 0, Work 0, Main] (upload_init gfile_init)) =
     Looping 0 \<and>
   data (gf (run env_one [Work 0, Work 0, Work 0, Work 0, Work 0, Main] (upload_init gfile_init))) =
     None \<and>
   main (step env_one
     (run env_one [Work 0, Work 0, Work 0, Work 0, Work 0, Main] (upload_init gfile_init)) Main) =
     Raised TypeError"
proof -
  define s where "s = run env_one [Work 0, Work 0, Work 0, Work 0, Work 0, Main]
    (upload_init gfile_init)"
  have a: "failed (gf s)" "main s = Looping 0"
    unfolding s_def
    by (simp_all add: env_one_def run_def work_def coordinator_def upload_init_def gfile_init_def
        finish_chunk_def bad_status_def update_tick_def)
  have u: "\<forall>i. response env_one i ''url'' = None" by (simp add: env_one_def)
  have k: "main s = Looping 0 \<and> chunks env_one - 1 \<le> 0" using a by (simp add: env_one_def)
  note t = upload_without_url_raises [OF u s_def]
  note d = t [THEN conjunct1]
  note r = t [THEN conjunct2, THEN conjunct2, rule_format, OF k]
  show ?thesis unfolding s_def [symmetric] using a d r by simp
qed



subsection \<open>Download\<close>

text \<open>
  Claim C4, as amended. When \<^verbatim>\<open>download\<close> reaches the direct mode (the URL matches, a
  file name and a file id are bound, no accelerator is configured), the request
  succeeds with a declared \<^verbatim>\<open>Content-Length\<close> \<open>x\<close>, the temporary file \<^verbatim>\<open><name>.dl\<close> can be
  opened for writing and the stream ends normally: if the size of the temporary file
  equals \<open>x\<close>, the final name is not empty and the operating system does not refuse the
  rename, the temporary file is renamed to the final name, \<^verbatim>\<open>Succeeded.\<close> is printed and
  the name is returned; if the size differs from \<open>x\<close>, nothing is renamed, the temporary
  file stays in place with all bytes received, the corruption message naming it is
  printed and the name is returned.
\<close>

theorem download_checks_size:
  assumes "uri_re (uri cfg) = Some m1"
    and "parse_page m1 (landing env) = (vars, msgs)"
    and "resolve_target cfg filename vars = Inr (name, url)"
    and "aria2 cfg = None \<or> aria2 cfg = Some []"
    and "status_ok env" and "content_length env = Declared x"
    and "open_error env (name @ ''.dl'') = None" and "stream_error env = None"
    and "download cfg filename env st = (st', r)"
  shows "(x = int (length (concat (body env))) \<and> name \<noteq> [] \<and>
          rename_error env (name @ ''.dl'') name = None \<longrightarrow>
            r = Inr (Some name) \<and>
            files st' = ((files st)(name @ ''.dl'' := None))(name \<mapsto> concat (body env)) \<and>
            printed st' = printed st @ msgs @
              [Filesize_check x (length (concat (body env))), Succeeded]) \<and>
         (x \<noteq> int (length (concat (body env))) \<longrightarrow>
            r = Inr (Some name) \<and>
            files st' = (files st)(name @ ''.dl'' \<mapsto> concat (body env)) \<and>
            files st' (name @ ''.dl'') = Some (concat (body env)) \<and>
            printed st' = printed st @ msgs @
              [Filesize_check x (length (concat (body env))), Corrupt (name @ ''.dl'')])"
proof -
  have d: "download cfg filename env st =
      download_direct name env (st\<lparr>printed := printed st @ msgs\<rparr>)"
    using assms(1-4) by (auto simp: download_def)
  show ?thesis
  proof (cases "x = int (length (concat (body env)))")
    case True
    with assms(5-9) d show ?thesis
      by (auto simp: download_direct_def os_rename_def Let_def)
  next
    case False
    with assms(5-9) d show ?thesis
      by (auto simp: download_direct_def Let_def)
  qed
qed

theorem download_checks_size_witness:
  "snd (download cfg_direct (Some ''f.bin'') (env_three_bytes 3) st_empty) = Inr (Some ''f.bin'') \<and>
   files (fst (download cfg_direct (Some ''f.bin'') (env_three_bytes 3) st_empty)) =
     [''f.bin'' \<mapsto> ''abc''] \<and>
   printed (fst (download cfg_direct (Some ''f.bin'') (env_three_bytes 3) st_empty)) =
     [Failed_to_parse, Filesize_check 3 3, Succeeded] \<and>
   snd (download cfg_direct (Some ''f.bin'') (env_three_bytes 4) st_empty) = Inr (Some ''f.bin'') \<and>
   files (fst (download cfg_direct (Some ''f.bin'') (env_three_bytes 4) st_empty)) =
     [''f.bin.dl'' \<mapsto> ''abc''] \<and>
   printed (fst (download cfg_direct (Some ''f.bin'') (env_three_bytes 4) st_empty)) =
     [Failed_to_parse, Filesize_check 4 3, Corrupt ''f.bin.dl'']"
proof -
  have u: "uri_re (uri cfg_direct) = Some ''abc123''"
    by (simp add: cfg_direct_def uri_re_def strip_prefix_def is_digit_def is_id_char_def)
  have p: "parse_page ''abc123'' (landing (env_three_bytes x)) =
      (\<lparr>web_name = None, file_id = Some ''abc123'', size_str = Some ''1.5 MB''\<rparr>, [Failed_to_parse])"
    for x by (simp add: env_three_bytes_def page_no_name_def parse_page_def)
  have r: "resolve_target cfg_direct (Some ''f.bin'')
      \<lparr>web_name = None, file_id = Some ''abc123'', size_str = Some ''1.5 MB''\<rparr> =
      Inr (''f.bin'', ''https://12.gigafile.nu/download.php?file=abc123'')"
    by (simp add: resolve_target_def cfg_direct_def rsplit_slash_def)
  have a: "aria2 cfg_direct = None \<or> aria2 cfg_direct = Some []" by (simp add: cfg_direct_def)
  have e: "status_ok (env_three_bytes x)" "content_length (env_three_bytes x) = Declared x"
    "open_error (env_three_bytes x) (''f.bin'' @ ''.dl'') = None"
    "stream_error (env_three_bytes x) = None" "concat (body (env_three_bytes x)) = ''abc''"
    "rename_error (env_three_bytes x) ''f.bin.dl'' ''f.bin'' = None"
    for x by (simp_all add: env_three_bytes_def)
  note t3 = download_checks_size [OF u p [of 3] r a e(1) [of 3] e(2) [of 3] e(3) [of 3]
      e(4) [of 3] surjective_pairing, where st = st_empty]
  note t4 = download_checks_size [OF u p [of 4] r a e(1) [of 4] e(2) [of 4] e(3) [of 4]
      e(4) [of 4] surjective_pairing, where st = st_empty]
  from t3 have 1: "snd (download cfg_direct (Some ''f.bin'') (env_three_bytes 3) st_empty) =
      Inr (Some ''f.bin'')" by (simp add: e)
  from t3 have 2: "files (fst (download cfg_direct (Some ''f.bin'') (env_three_bytes 3) st_empty)) =
     [''f.bin'' \<mapsto> ''abc'']" by (simp add: e st_empty_def)
  from t3 have 3: "printed (fst (download cfg_direct (Some ''f.bin'') (env_three_bytes 3) st_empty)) =
     [Failed_to_parse, Filesize_check 3 3, Succeeded]" by (simp add: e st_empty_def)
  from t4 have 4: "snd (download cfg_direct (Some ''f.bin'') (env_three_bytes 4) st_empty) =
      Inr (Some ''f.bin'')" by (simp add: e)
  from t4 have 5: "files (fst (download cfg_direct (Some ''f.bin'') (env_three_bytes 4) st_empty)) =
     [''f.bin.dl'' \<mapsto> ''abc'']" by (simp add: e st_empty_def)
  from t4 have 6: "printed (fst (download cfg_direct (Some ''f.bin'') (env_three_bytes 4) st_empty)) =
     [Failed_to_parse, Filesize_check 4 3, Corrupt ''f.bin.dl'']" by (simp add: e st_empty_def)
  from 1 2 3 4 5 6 show ?thesis by blast
qed

text \<open>
  Claim C4 as stated fails at a single-file page whose \<^verbatim>\<open>#dl\<close> element has an empty text,
  with no file name given by the caller: the final name is the empty string, the three
  bytes declared arrive in \<^verbatim>\<open>.dl\<close>, the sizes agree and \<^verbatim>\<open>Succeeded.\<close> is printed, and then
  \<^verbatim>\<open>rename('.dl', '')\<close> raises FileNotFoundError: nothing is renamed, \<^verbatim>\<open>.dl\<close> stays, and
  the exception reaches the caller.
\<close>

theorem download_empty_name_counterexample:
  "download cfg_direct None env_empty_name st_empty =
     (\<lparr>files = [''.dl'' \<mapsto> ''abc''],
       printed = [Name_size_id [] ''1.5 MB'' ''abc123'', Filesize_check 3 3, Succeeded],
       command = None\<rparr>,
      Inl FileNotFoundError)"
  by (simp add: download_def cfg_direct_def env_empty_name_def page_empty_name_def st_empty_def
      uri_re_def strip_prefix_def is_digit_def is_id_char_def parse_page_def resolve_target_def
      sanitize_def rsplit_slash_def download_direct_def os_rename_def Let_def)

text \<open>
  Claim C9 at a single-file page without the \<^verbatim>\<open>#dl\<close> element, with no file name given
  by the caller: the parse error is printed, and then \<^verbatim>\<open>download\<close> raises
  UnboundLocalError for \<^verbatim>\<open>web_name\<close> to its caller before any request for the file.
\<close>

theorem download_unbound_name:
  "download cfg_direct None (env_three_bytes 3) st_empty =
     (st_empty\<lparr>printed := [Failed_to_parse]\<rparr>, Inl (UnboundLocalError ''web_name''))"
  by (simp add: download_def cfg_direct_def env_three_bytes_def page_no_name_def st_empty_def
      uri_re_def strip_prefix_def is_digit_def is_id_char_def parse_page_def resolve_target_def)

subsection \<open>The chunk count\<close>

text \<open>
  Below \<open>2 ^ 53\<close> the float quotient cannot hide a remainder: for a file size and a
  chunk size under \<open>2 ^ 53\<close> the count is the exact ceiling.
\<close>

lemma ceil_div_bounds:
  fixes c s :: nat
  assumes "0 < c" and "0 < s"
  shows "s \<le> ((s + c - 1) div c) * c \<and> ((s + c - 1) div c - 1) * c < s \<and>
         1 \<le> (s + c - 1) div c \<and> (s + c - 1) div c \<le> s"
proof -
  define q where "q = (s + c - 1) div c"
  have dm: "s + c - 1 = q * c + (s + c - 1) mod c" by (simp add: q_def)
  have ml: "(s + c - 1) mod c < c" using assms(1) by simp
  have 1: "s \<le> q * c" using dm ml assms by linarith
  have q1: "1 \<le> q"
  proof (rule ccontr)
    assume "\<not> 1 \<le> q"
    then have "q = 0" by simp
    with 1 assms(2) show False by simp
  qed
  then obtain q' where q': "q = Suc q'" by (cases q) simp_all
  have 2: "(q - 1) * c < s"
  proof -
    have "q * c \<le> s + c - 1" using dm by linarith
    then have "q' * c + c \<le> s + c - 1" by (simp add: q')
    then have "q' * c < s" using assms by linarith
    then show ?thesis by (simp add: q')
  qed
  have 3: "q \<le> s"
  proof -
    have "q' * 1 \<le> q' * c" using assms(1) by (intro mult_le_mono2) simp
    then have "q' \<le> q' * c" by simp
    moreover have "q' * c < s" using 2 by (simp add: q')
    ultimately have "q' < s" by (rule le_less_trans)
    then show ?thesis by (simp add: q')
  qed
  from 1 2 q1 3 show ?thesis by (simp add: q_def)
qed

lemma upload_chunks_exact:
  assumes s: "file_size < 2 ^ 53" and c: "0 < chunk_size" "chunk_size < 2 ^ 53"
  shows "upload_chunks file_size chunk_size = Inr ((file_size + chunk_size - 1) div chunk_size)"
proof (cases "file_size = 0")
  case True
  then show ?thesis using c
    by (simp add: upload_chunks_def int_true_div_def math_ceil_def)
next
  case False
  then have sp: "0 < file_size" by simp
  define e where "e = floor_log2_quot file_size chunk_size"
  define t where "t = nat (52 - e)"
  define q where "q = (file_size + chunk_size - 1) div chunk_size"
  define m where "m = rne_div (file_size * 2 ^ t) chunk_size"
  have bs: "bit_length file_size \<le> 53" using s by (rule bit_length_le)
  have bc: "bit_length chunk_size \<le> 53" using c(2) by (rule bit_length_le)
  have er: "- 53 \<le> e" "e \<le> 52"
    using floor_log2_quot_range [OF sp c(1)] bs bc by (simp_all add: e_def)
  then have k: "max e (- 1022) = e" "nat (52 - e) = t" "nat (e - 52) = 0"
    "e - 52 = - int t"
    by (simp_all add: t_def)
  have t105: "t \<le> 105" using er by (simp add: t_def)
  have qb: "file_size \<le> q * chunk_size" "(q - 1) * chunk_size < file_size" "1 \<le> q"
    "q \<le> file_size"
    using ceil_div_bounds [OF c(1) sp] by (simp_all add: q_def)
  have clt: "chunk_size < 2 ^ (t + 1)"
  proof (cases "0 \<le> e")
    case True
    then have n: "nat (- e) = 0" "nat e + (t + 1) = 53" using er by (simp_all add: t_def)
    have "chunk_size * 2 ^ nat e \<le> file_size"
      using floor_log2_quot_lower [OF sp c(1)] n(1) by (simp add: e_def)
    also have "\<dots> < 2 ^ 53" by (rule s)
    also have "(2::nat) ^ 53 = 2 ^ (nat e + (t + 1))" by (simp only: n(2))
    also have "\<dots> = 2 ^ (t + 1) * 2 ^ nat e" by (simp only: power_add mult.commute)
    finally show ?thesis by simp
  next
    case False
    then have n: "nat e = 0" "53 + nat (- e) = t + 1" using er by (simp_all add: t_def)
    have "chunk_size \<le> file_size * 2 ^ nat (- e)"
      using floor_log2_quot_lower [OF sp c(1)] n(1) by (simp add: e_def)
    also have "\<dots> < 2 ^ 53 * 2 ^ nat (- e)" using s by simp
    also have "\<dots> = 2 ^ (53 + nat (- e))" by (simp only: power_add)
    also have "\<dots> = 2 ^ (t + 1)" by (simp only: n(2))
    finally show ?thesis .
  qed
  have up: "m \<le> q * 2 ^ t"
    unfolding m_def
  proof (rule rne_div_upper [OF c(1)])
    have "file_size * 2 ^ t \<le> (q * chunk_size) * 2 ^ t" using qb(1) by simp
    then show "file_size * 2 ^ t \<le> q * 2 ^ t * chunk_size" by (simp add: mult_ac)
  qed
  have lo: "(q - 1) * 2 ^ t + 1 \<le> m"
    unfolding m_def
  proof (rule rne_div_lower [OF c(1)])
    have "(q - 1) * chunk_size + 1 \<le> file_size" using qb(2) by simp
    then have "((q - 1) * chunk_size + 1) * (2 * 2 ^ t) \<le> file_size * (2 * 2 ^ t)"
      by (rule mult_le_mono1)
    moreover have "(2 * ((q - 1) * 2 ^ t) + 1) * chunk_size <
        ((q - 1) * chunk_size + 1) * (2 * 2 ^ t)"
      using clt by (simp add: algebra_simps)
    ultimately show "(2 * ((q - 1) * 2 ^ t) + 1) * chunk_size < 2 * (file_size * 2 ^ t)"
      by (simp add: mult_ac)
  qed
  have "(2::nat) ^ t \<le> 2 ^ 105" using t105 by (intro power_increasing) simp_all
  moreover have "q \<le> 2 ^ 53" using qb(4) s by linarith
  ultimately have "q * 2 ^ t \<le> 2 ^ 53 * 2 ^ 105" by (rule mult_le_mono [rotated])
  with up have "m \<le> 2 ^ 53 * 2 ^ 105" by (rule order_trans)
  then have nov: "\<not> 2 ^ 1024 \<le> m" by simp
  have d: "int_true_div file_size chunk_size = Inr (m, - int t)"
    using False c(1) nov
    by (simp add: int_true_div_def Let_def k m_def flip: e_def)
  have "(m + (2 ^ t - 1)) div 2 ^ t = q"
  proof (rule div_nat_eqI)
    obtain q' where q': "q = Suc q'" using qb(3) by (cases q) simp_all
    have "(q - 1) * 2 ^ t + 2 ^ t = q * 2 ^ t"
      by (simp add: q')
    with lo show "2 ^ t * q \<le> m + (2 ^ t - 1)" by (simp add: mult.commute)
    have "0 < (2::nat) ^ t" by simp
    then have "m + (2 ^ t - 1) < q * 2 ^ t + 2 ^ t" using up by linarith
    then show "m + (2 ^ t - 1) < 2 ^ t * Suc q" by (simp add: mult.commute)
  qed
  then have "math_ceil (m, - int t) = q" by (simp add: math_ceil_def)
  with d show ?thesis by (simp add: upload_chunks_def q_def)
qed

text \<open>
  The bytes of chunk \<open>k\<close> are the \<open>chunk_size\<close> bytes from offset \<open>k * chunk_size\<close>, cut
  at the end of the file; below \<open>2 ^ 53\<close> the chunks \<^verbatim>\<open>upload\<close> sends are a partition of
  the file, each but the last of full length.
\<close>

lemma chunk_payload_range:
  assumes "chunk_no * chunk_size \<le> length input_file" and "0 < chunk_copy_size"
  shows "chunk_payload input_file chunk_size chunk_copy_size chunk_no =
           Inr (take chunk_size (drop (chunk_no * chunk_size) input_file))"
proof -
  define start where "start = chunk_no * chunk_size"
  define output_size where
    "output_size = min (int chunk_size) (int (length input_file) - int start)"
  have le: "start \<le> length input_file" using assms(1) by (simp add: start_def)
  have nn: "int 0 \<le> output_size" using le by (simp add: output_size_def)
  from split_loop_blocks [OF nn assms(2)] obtain blocks where b:
    "split_loop input_file output_size chunk_copy_size start 0 [] = Inr ([] @ blocks)"
    "concat blocks = take (nat (output_size - int 0)) (drop start input_file)"
    by blast
  have n: "nat (output_size - int 0) = min chunk_size (length input_file - start)"
    using le by (simp add: output_size_def min_def) linarith
  have "take (min chunk_size (length input_file - start)) (drop start input_file) =
        take chunk_size (drop start input_file)"
    by (simp add: min_def)
  with b n have "chunk_payload input_file chunk_size chunk_copy_size chunk_no =
      Inr (take chunk_size (drop start input_file))"
    by (simp add: chunk_payload_def split_file_def output_size_def flip: start_def)
  then show ?thesis by (simp add: start_def)
qed

lemma concat_chunks:
  "concat (map (\<lambda>k. take c (drop (k * c) xs)) [0..<n]) = take (n * c) xs"
proof (induction n)
  case 0
  show ?case by simp
next
  case (Suc n)
  have "take (n * c + c) xs = take (n * c) xs @ take c (drop (n * c) xs)"
    by (rule take_add)
  with Suc show ?case by (simp add: add.commute)
qed

lemma upload_partition:
  assumes "length input_file < 2 ^ 53" and "0 < chunk_size" and "chunk_size < 2 ^ 53"
    and "0 < chunk_copy_size"
    and "n = (length input_file + chunk_size - 1) div chunk_size"
  shows "upload_chunks (length input_file) chunk_size = Inr n"
    and "\<forall>k \<in> set (uploaded_chunk_nos n).
           chunk_payload input_file chunk_size chunk_copy_size k =
             Inr (take chunk_size (drop (k * chunk_size) input_file))"
    and "concat (map (\<lambda>k. take chunk_size (drop (k * chunk_size) input_file))
           (uploaded_chunk_nos n)) = input_file"
    and "\<forall>k. k + 1 < n \<longrightarrow>
           length (take chunk_size (drop (k * chunk_size) input_file)) = chunk_size"
proof -
  show "upload_chunks (length input_file) chunk_size = Inr n"
    using upload_chunks_exact [OF assms(1-3)] assms(5) by simp
  have cover: "length input_file \<le> n * chunk_size"
  proof (cases "length input_file = 0")
    case True
    then show ?thesis by simp
  next
    case False
    then show ?thesis using ceil_div_bounds [OF assms(2), of "length input_file"] assms(5)
      by simp
  qed
  have below: "k * chunk_size < length input_file" if "k < n" for k
  proof -
    from that have np: "0 < n" by simp
    then have lp: "0 < length input_file"
      using assms(2,5) by (cases "length input_file = 0") simp_all
    have "(n - 1) * chunk_size < length input_file"
      using ceil_div_bounds [OF assms(2) lp] assms(5) by simp
    moreover have "k * chunk_size \<le> (n - 1) * chunk_size"
      using that by (intro mult_le_mono1) simp
    ultimately show ?thesis by (rule le_less_trans [rotated])
  qed
  show "\<forall>k \<in> set (uploaded_chunk_nos n).
           chunk_payload input_file chunk_size chunk_copy_size k =
             Inr (take chunk_size (drop (k * chunk_size) input_file))"
  proof
    fix k assume "k \<in> set (uploaded_chunk_nos n)"
    then have "k = 0 \<or> k < n" by (auto simp: uploaded_chunk_nos_def)
    then have "k * chunk_size \<le> length input_file"
      using below [of k] by auto
    then show "chunk_payload input_file chunk_size chunk_copy_size k =
             Inr (take chunk_size (drop (k * chunk_size) input_file))"
      using assms(4) by (rule chunk_payload_range)
  qed
  show "concat (map (\<lambda>k. take chunk_size (drop (k * chunk_size) input_file))
           (uploaded_chunk_nos n)) = input_file"
  proof (cases "n = 0")
    case True
    with cover show ?thesis by (simp add: uploaded_chunk_nos_def)
  next
    case False
    then have "uploaded_chunk_nos n = [0..<n]"
      by (simp add: uploaded_chunk_nos_def upt_conv_Cons)
    with cover show ?thesis by (simp add: concat_chunks)
  qed
  show "\<forall>k. k + 1 < n \<longrightarrow>
           length (take chunk_size (drop (k * chunk_size) input_file)) = chunk_size"
  proof (intro allI impI)
    fix k assume "k + 1 < n"
    then have "(k + 1) * chunk_size < length input_file" by (rule below)
    then show "length (take chunk_size (drop (k * chunk_size) input_file)) = chunk_size"
      by simp
  qed
qed

text \<open>
  Claim C1 at a file of \<open>10 * 2 ^ 50 + 1\<close> bytes with the default chunk size of
  \<open>10 * 2 ^ 20\<close>: the float quotient rounds to \<open>2 ^ 30\<close>, so \<^verbatim>\<open>upload\<close> computes
  \<open>2 ^ 30\<close> chunks where \<open>\<lceil>S / C\<rceil>\<close> is \<open>2 ^ 30 + 1\<close>, and the chunks uploaded, of at most
  \<open>C\<close> bytes each, cannot hold the \<open>S\<close> bytes of the file.
\<close>

theorem upload_chunks_rounds:
  "upload_chunks 11258999068426241 10485760 = Inr 1073741824 \<and>
   (11258999068426241 + 10485760 - 1) div 10485760 = (1073741825 :: nat) \<and>
   1073741824 * 10485760 < (11258999068426241 :: nat)"
  by (simp add: upload_chunks_def int_true_div_def floor_log2_quot_def rne_div_def
      bit_length.simps math_ceil_def Let_def)


end
